theory Spec2Isabelle
  imports Main
begin

section \<open>Tables of the shared database\<close>

text \<open>
  Both services talk to one PostgreSQL database. The catalog service owns the table
  \<open>products\<close> (catalog/app/models.py), the order service owns \<open>orders\<close> and
  \<open>order_items\<close> (orders/app/models.py) and reads and updates \<open>products\<close> across
  schemas. A table is the list of its rows in insertion order; an integer primary key is
  drawn from the table's sequence. Python integers are unbounded, hence \<open>int\<close>; the store
  checks the range of a column when a row is written.
\<close>

record Product =
  p_id :: int
  p_name :: string
  p_price_cents :: int
  p_stock :: int

record Order =
  o_id :: int
  o_user_id :: string
  o_created_at :: int
  o_total_cents :: int

record OrderItem =
  oi_id :: int
  oi_order_id :: int
  oi_product_id :: int
  oi_qty :: int
  oi_price_cents :: int

record db =
  products :: "Product list"
  products_seq :: int
  orders :: "Order list"
  orders_seq :: int
  order_items :: "OrderItem list"
  order_items_seq :: int

text \<open>
  The columns \<open>price_cents\<close>, \<open>stock\<close>, \<open>total_cents\<close> and \<open>qty\<close> are declared
  \<open>Integer\<close>, four bytes in the store, and \<open>orders.user_id\<close> is \<open>String(100)\<close>: the store
  refuses a value outside the range, or a longer string, with \<open>DataError\<close>. The \<open>id\<close>
  columns are filled from the sequences, whose exhaustion is not part of the model.
\<close>

definition int4 :: "int \<Rightarrow> bool" where
  "int4 v = (- 2147483648 \<le> v \<and> v \<le> 2147483647)"

section \<open>Request and response schemas\<close>

text \<open>orders/app/schemas.py and catalog/app/schemas.py.\<close>

record OrderItemIn =
  in_product_id :: int
  in_qty :: int

record OrderCreate =
  items :: "OrderItemIn list"

record OrderItemOut =
  out_product_id :: int
  out_qty :: int
  out_price_cents :: int

record OrderOut =
  oo_id :: int
  oo_user_id :: string
  oo_total_cents :: int
  oo_items :: "OrderItemOut list"

record ProductIn =
  pin_name :: string
  pin_price_cents :: int
  pin_stock :: int

text \<open>The \<open>Field\<close> constraints that pydantic checks on a request body.\<close>

definition OrderItemIn_valid :: "OrderItemIn \<Rightarrow> bool" where
  "OrderItemIn_valid it = (in_product_id it \<ge> 1 \<and> in_qty it \<ge> 1)"

definition OrderCreate_valid :: "OrderCreate \<Rightarrow> bool" where
  "OrderCreate_valid payload =
     (length (items payload) \<ge> 1 \<and> list_all OrderItemIn_valid (items payload))"

definition ProductIn_valid :: "ProductIn \<Rightarrow> bool" where
  "ProductIn_valid payload =
     (length (pin_name payload) \<ge> 1 \<and> pin_price_cents payload \<ge> 0 \<and> pin_stock payload \<ge> 0)"

section \<open>Exceptions\<close>

text \<open>
  The \<open>detail\<close> of an \<open>HTTPException\<close> is kept as data: each constructor stands for one
  message template of the source, with the values the f-string interpolates.
  \<^item> \<open>Items_must_not_be_empty\<close>: \<^verbatim>\<open>"items must not be empty"\<close>
  \<^item> \<open>Unknown_products missing\<close>: \<^verbatim>\<open>f"unknown product(s): {missing}"\<close>
  \<^item> \<open>Insufficient_stock pid\<close>: \<^verbatim>\<open>f"insufficient stock for product {pid}"\<close>
  \<^item> \<open>Not_found\<close>: \<^verbatim>\<open>"not found"\<close>
  \<^item> \<open>Missing_X_User\<close>: \<^verbatim>\<open>"missing X-User"\<close>

  \<open>RequestValidationError\<close> is what FastAPI raises, and answers with status 422, when
  a request body violates its schema. \<open>DataError\<close> is what the store raises for a value
  that does not fit its column; no handler catches it, so the request is answered with
  status 500.
\<close>

datatype detail =
    Items_must_not_be_empty
  | Unknown_products "int list"
  | Insufficient_stock int
  | Not_found
  | Missing_X_User

datatype exn =
    HTTPException int detail
  | KeyError int
  | InvalidRequestError
  | RequestValidationError
  | DataError

section \<open>Sessions\<close>

text \<open>
  What a SQLAlchemy session sends to the store, in order. \<open>Flush\<close> stands for the
  INSERT and UPDATE statements of a unit of work, \<open>Refresh\<close> and \<open>Load_items\<close> for the
  SELECT that reloads an order and the one that loads its \<open>items\<close> relationship.
\<close>

datatype statement =
    CREATE_SCHEMA
  | SELECT_prices "int list"
  | UPDATE_stock int int
  | SELECT_orders string

datatype session_call =
    Execute statement
  | Flush
  | Refresh int
  | Load_items int
  | Commit
  | Rollback

text \<open>
  A session holds the transaction's view of the tables (\<open>cur\<close>) and the calls made so
  far. The session factory has \<open>autoflush=False\<close>, so nothing is written but by
  \<open>flush\<close> and by \<open>execute\<close>.
\<close>

record session =
  cur :: db
  calls :: "session_call list"

definition execute :: "session \<Rightarrow> statement \<Rightarrow> session" where
  "execute s stmt = s\<lparr>calls := calls s @ [Execute stmt]\<rparr>"

definition called :: "session \<Rightarrow> session_call \<Rightarrow> session" where
  "called s c = s\<lparr>calls := calls s @ [c]\<rparr>"

text \<open>
  orders/app/db.py, \<open>get_session\<close>: the dependency opens a session, executes
  \<open>CREATE SCHEMA IF NOT EXISTS\<close>, hands the session to the endpoint, commits when the
  endpoint returns and rolls back when it raises. A rollback restores the tables; the
  sequences of the store are not transactional and keep the values they reached.
\<close>

definition rolled_back :: "db \<Rightarrow> db \<Rightarrow> db" where
  "rolled_back d d' =
     d\<lparr>products_seq := products_seq d', orders_seq := orders_seq d',
       order_items_seq := order_items_seq d'\<rparr>"

definition get_session ::
  "(session \<Rightarrow> (exn + 'a) \<times> session) \<Rightarrow> db \<Rightarrow> (exn + 'a) \<times> db \<times> session_call list" where
  "get_session endpoint d =
     (let s = execute \<lparr>cur = d, calls = []\<rparr> CREATE_SCHEMA in
      case endpoint s of
        (Inr r, s') \<Rightarrow> (Inr r, cur s', calls s' @ [Commit])
      | (Inl e, s') \<Rightarrow> (Inl e, rolled_back d (cur s'), calls s' @ [Rollback]))"

text \<open>catalog/app/db.py, \<open>get_session\<close>: the same without the schema statement.\<close>

definition catalog_get_session ::
  "(session \<Rightarrow> (exn + 'a) \<times> session) \<Rightarrow> db \<Rightarrow> (exn + 'a) \<times> db \<times> session_call list" where
  "catalog_get_session endpoint d =
     (let s = \<lparr>cur = d, calls = []\<rparr> in
      case endpoint s of
        (Inr r, s') \<Rightarrow> (Inr r, cur s', calls s' @ [Commit])
      | (Inl e, s') \<Rightarrow> (Inl e, rolled_back d (cur s'), calls s' @ [Rollback]))"

section \<open>Python dictionaries\<close>

text \<open>
  A \<open>dict\<close> keeps its keys in insertion order: assigning to a key that is present
  replaces the value in place, assigning to a new key appends it.
\<close>

type_synonym ('k, 'v) dict = "('k \<times> 'v) list"

fun dict_set :: "('k, 'v) dict \<Rightarrow> 'k \<Rightarrow> 'v \<Rightarrow> ('k, 'v) dict" where
  "dict_set [] k v = [(k, v)]"
| "dict_set ((k', v') # d) k v =
     (if k' = k then (k, v) # d else (k', v') # dict_set d k v)"

definition dict_get :: "('k, 'v) dict \<Rightarrow> 'k \<Rightarrow> 'v \<Rightarrow> 'v" where
  "dict_get d k dflt = (case map_of d k of None \<Rightarrow> dflt | Some v \<Rightarrow> v)"

definition dict_keys :: "('k, 'v) dict \<Rightarrow> 'k list" where
  "dict_keys d = map fst d"

text \<open>The dictionary comprehension \<^verbatim>\<open>{row[0]: row[1] for row in rows}\<close>.\<close>

fun dict_of_rows :: "('k \<times> 'v) list \<Rightarrow> ('k, 'v) dict \<Rightarrow> ('k, 'v) dict" where
  "dict_of_rows [] d = d"
| "dict_of_rows ((k, v) # rows) d = dict_of_rows rows (dict_set d k v)"

section \<open>The order service\<close>

subsection \<open>Helpers\<close>

text \<open>
  \<open>fetch_prices\<close>: no round trip for an empty list; otherwise one SELECT over
  \<open>products\<close>, whose rows become the dictionary.
\<close>

definition fetch_prices :: "session \<Rightarrow> int list \<Rightarrow> (int, int) dict \<times> session" where
  "fetch_prices s product_ids =
     (if product_ids = [] then ([], s)
      else
        let rows = map (\<lambda>p. (p_id p, p_price_cents p))
                     (filter (\<lambda>p. p_id p \<in> set product_ids) (products (cur s)))
        in (dict_of_rows rows [], execute s (SELECT_prices product_ids)))"

text \<open>
  The statement of \<open>reserve_stock\<close>:
  \<^verbatim>\<open>UPDATE products SET stock = stock - :qty WHERE id = :pid AND stock >= :qty\<close>.
  It returns the table after the statement and its row count. The new stock of a row
  the statement changes lies between zero and the old stock when the quantity is not
  negative, as it is in a body that passed the validation; it then fits the column.
\<close>

definition update_stock :: "Product list \<Rightarrow> int \<Rightarrow> int \<Rightarrow> Product list \<times> nat" where
  "update_stock ps pid qty =
     (map (\<lambda>p. if p_id p = pid \<and> p_stock p \<ge> qty then p\<lparr>p_stock := p_stock p - qty\<rparr> else p) ps,
      length (filter (\<lambda>p. p_id p = pid \<and> p_stock p \<ge> qty) ps))"

text \<open>
  \<open>reserve_stock\<close>: one statement per item, in the order of the list; the first
  statement whose row count is not 1 raises. An item is the pair of the values under
  the keys \<^verbatim>\<open>"product_id"\<close> and \<^verbatim>\<open>"qty"\<close>.
\<close>

fun reserve_stock :: "session \<Rightarrow> (int \<times> int) list \<Rightarrow> (exn + unit) \<times> session" where
  "reserve_stock s [] = (Inr (), s)"
| "reserve_stock s ((pid, qty) # its) =
     (let res = update_stock (products (cur s)) pid qty;
          s' = execute (s\<lparr>cur := (cur s)\<lparr>products := fst res\<rparr>\<rparr>) (UPDATE_stock pid qty)
      in if snd res \<noteq> 1 then (Inl (HTTPException 400 (Insufficient_stock pid)), s')
         else reserve_stock s' its)"

subsection \<open>POST /orders\<close>

text \<open>The loop that combines duplicates: \<^verbatim>\<open>combined[pid] = combined.get(pid, 0) + qty\<close>.\<close>

fun combine :: "OrderItemIn list \<Rightarrow> (int, int) dict \<Rightarrow> (int, int) dict" where
  "combine [] combined = combined"
| "combine (it # its) combined =
     combine its
       (dict_set combined (in_product_id it) (dict_get combined (in_product_id it) 0 + in_qty it))"

text \<open>
  The loop that snapshots the prices: it adds \<open>price * qty\<close> to the total and one
  pending \<open>OrderItem\<close> (its \<open>id\<close> is assigned by the flush) per entry; \<open>prices[pid]\<close>
  raises \<open>KeyError\<close> on a missing key.
\<close>

fun snapshot ::
  "(int, int) dict \<Rightarrow> int \<Rightarrow> (int \<times> int) list \<Rightarrow> int \<Rightarrow> OrderItem list \<Rightarrow> exn + int \<times> OrderItem list" where
  "snapshot prices order_id [] total_c pending = Inr (total_c, pending)"
| "snapshot prices order_id ((pid, qty) # rest) total_c pending =
     (case map_of prices pid of
        None \<Rightarrow> Inl (KeyError pid)
      | Some price \<Rightarrow>
          snapshot prices order_id rest (total_c + price * qty)
            (pending @ [\<lparr>oi_id = 0, oi_order_id = order_id, oi_product_id = pid,
                         oi_qty = qty, oi_price_cents = price\<rparr>]))"

text \<open>
  The first flush inserts the order, which draws its \<open>id\<close> from the sequence. The
  store refuses a \<open>user_id\<close> of more than 100 characters and a \<open>total_cents\<close> outside
  the range of the column.
\<close>

definition insert_order :: "db \<Rightarrow> string \<Rightarrow> int \<Rightarrow> int \<Rightarrow> exn + db" where
  "insert_order d user now total_c =
     (if length user > 100 \<or> \<not> int4 total_c then Inl DataError
      else Inr (d\<lparr>orders := orders d @ [\<lparr>o_id = orders_seq d + 1, o_user_id = user,
                                         o_created_at = now, o_total_cents = total_c\<rparr>],
                 orders_seq := orders_seq d + 1\<rparr>))"

text \<open>
  The second flush updates the order's \<open>total_cents\<close> and inserts the pending items
  in the order they were added, each with the next \<open>id\<close> of the sequence. The store
  refuses a \<open>total_cents\<close>, a \<open>qty\<close> or a \<open>price_cents\<close> outside the range of its
  column; \<open>product_id\<close> is at this point the \<open>id\<close> of a row of \<open>products\<close>.
\<close>

definition set_total :: "Order list \<Rightarrow> int \<Rightarrow> int \<Rightarrow> exn + Order list" where
  "set_total os oid total_c =
     (if int4 total_c
      then Inr (map (\<lambda>r. if o_id r = oid then r\<lparr>o_total_cents := total_c\<rparr> else r) os)
      else Inl DataError)"

fun insert_items :: "db \<Rightarrow> OrderItem list \<Rightarrow> exn + db" where
  "insert_items d [] = Inr d"
| "insert_items d (i # pending) =
     (if int4 (oi_qty i) \<and> int4 (oi_price_cents i) then
        insert_items
          (d\<lparr>order_items := order_items d @ [i\<lparr>oi_id := order_items_seq d + 1\<rparr>],
             order_items_seq := order_items_seq d + 1\<rparr>)
          pending
      else Inl DataError)"

text \<open>The \<open>items\<close> relationship of an order and the response built from a row.\<close>

definition items_of :: "db \<Rightarrow> int \<Rightarrow> OrderItem list" where
  "items_of d oid = filter (\<lambda>i. oi_order_id i = oid) (order_items d)"

definition item_out :: "OrderItem \<Rightarrow> OrderItemOut" where
  "item_out i =
     \<lparr>out_product_id = oi_product_id i, out_qty = oi_qty i, out_price_cents = oi_price_cents i\<rparr>"

definition order_out :: "db \<Rightarrow> Order \<Rightarrow> OrderOut" where
  "order_out d r =
     \<lparr>oo_id = o_id r, oo_user_id = o_user_id r, oo_total_cents = o_total_cents r,
      oo_items = map item_out (items_of d (o_id r))\<rparr>"

text \<open>
  \<open>create_order\<close>, the endpoint's body. \<open>now\<close> is the clock read by the default of
  \<open>created_at\<close>. The metrics counters are not part of the model. A flush that the
  store refuses raises \<open>DataError\<close> and leaves the session as it was before the flush.
\<close>

definition create_order ::
  "OrderCreate \<Rightarrow> string \<Rightarrow> int \<Rightarrow> session \<Rightarrow> (exn + OrderOut) \<times> session" where
  "create_order payload user now s =
     (if items payload = [] then (Inl (HTTPException 400 Items_must_not_be_empty), s)
      else
        let combined = combine (items payload) [];
            product_ids = dict_keys combined;
            (prices, s1) = fetch_prices s product_ids
        in
          if length prices \<noteq> length product_ids then
            (Inl (HTTPException 400
                    (Unknown_products
                       (sorted_list_of_set (set product_ids - set (dict_keys prices))))), s1)
          else
            (case reserve_stock s1 combined of
              (Inl e, s2) \<Rightarrow> (Inl e, s2)
            | (Inr _, s2) \<Rightarrow>
                (case insert_order (cur s2) user now 0 of
                  Inl e \<Rightarrow> (Inl e, called s2 Flush)
                | Inr d3 \<Rightarrow>
                    let oid = orders_seq (cur s2) + 1;
                        s3 = called (s2\<lparr>cur := d3\<rparr>) Flush
                    in
                      (case snapshot prices oid combined 0 [] of
                        Inl e \<Rightarrow> (Inl e, s3)
                      | Inr (total_c, pending) \<Rightarrow>
                          (case set_total (orders (cur s3)) oid total_c of
                            Inl e \<Rightarrow> (Inl e, called s3 Flush)
                          | Inr os \<Rightarrow>
                              (case insert_items ((cur s3)\<lparr>orders := os\<rparr>) pending of
                                Inl e \<Rightarrow> (Inl e, called s3 Flush)
                              | Inr d4 \<Rightarrow>
                                  let s4 = called (called (s3\<lparr>cur := d4\<rparr>) Flush) (Refresh oid)
                                  in
                                    (case find (\<lambda>r. o_id r = oid) (orders d4) of
                                      None \<Rightarrow> (Inl InvalidRequestError, s4)
                                    | Some order \<Rightarrow>
                                        (Inr (order_out d4 order),
                                         called s4 (Load_items oid)))))))))"

text \<open>
  \<open>post_orders\<close> is \<open>create_order\<close> under its session dependency, called with a body
  and a user: what the route runs once the header and the body have passed.
\<close>

definition post_orders ::
  "OrderCreate \<Rightarrow> string \<Rightarrow> int \<Rightarrow> db \<Rightarrow> (exn + OrderOut) \<times> db \<times> session_call list" where
  "post_orders payload user now d = get_session (create_order payload user now) d"

text \<open>
  \<open>require_user\<close>: the value of the \<open>X-User\<close> header, if the request has one; a missing
  and an empty header are refused alike (\<^verbatim>\<open>if not user\<close>).
\<close>

definition require_user :: "string option \<Rightarrow> exn + string" where
  "require_user x_user =
     (case x_user of
        None \<Rightarrow> Inl (HTTPException 401 Missing_X_User)
      | Some user \<Rightarrow> if user = [] then Inl (HTTPException 401 Missing_X_User) else Inr user)"

text \<open>
  \<open>route_post_orders\<close> is the route \<^verbatim>\<open>@app.post("/orders")\<close> as FastAPI serves it, from
  the value of the \<open>X-User\<close> header, if any, and the parsed body. FastAPI resolves the
  dependencies in the order of the signature, \<open>require_user\<close> before \<open>get_session\<close>, and
  a dependency that raises ends the request there. Then it validates the body against
  \<open>OrderCreate\<close>, and it calls \<open>create_order\<close> only when the body passed. A body that
  fails is answered with \<open>RequestValidationError\<close>; by then \<open>get_session\<close> has executed
  its schema statement and is suspended at its \<open>yield\<close>. The versions of FastAPI differ
  in how the suspended dependency is resumed: some raise the validation error inside
  the scope of the dependencies, so that it reaches the \<open>except\<close> branch and the
  session is rolled back; the others close the dependencies first, so that
  \<open>get_session\<close> continues after its \<open>yield\<close> and commits, and raise the error
  afterwards. The source does not depend on the choice, which is a parameter of the
  route.
\<close>

datatype framework = Raises_inside_dependencies | Raises_after_dependencies

definition route_post_orders ::
  "framework \<Rightarrow> string option \<Rightarrow> OrderCreate \<Rightarrow> int \<Rightarrow> db \<Rightarrow>
   (exn + OrderOut) \<times> db \<times> session_call list" where
  "route_post_orders fw x_user payload now d =
     (case require_user x_user of
        Inl e \<Rightarrow> (Inl e, d, [])
      | Inr user \<Rightarrow>
          if OrderCreate_valid payload then get_session (create_order payload user now) d
          else
            (case fw of
               Raises_inside_dependencies \<Rightarrow>
                 get_session (\<lambda>s. (Inl RequestValidationError :: exn + OrderOut, s)) d
             | Raises_after_dependencies \<Rightarrow>
                 (case get_session (\<lambda>s. (Inr () :: exn + unit, s)) d of
                    (_, d', cs) \<Rightarrow> (Inl RequestValidationError, d', cs))))"

subsection \<open>GET /orders/me\<close>

definition list_my_orders :: "string \<Rightarrow> session \<Rightarrow> (exn + OrderOut list) \<times> session" where
  "list_my_orders user s =
     (let s1 = execute s (SELECT_orders user);
          os = sort_key (\<lambda>r. - o_id r) (filter (\<lambda>r. o_user_id r = user) (orders (cur s)))
      in (Inr (map (order_out (cur s)) os), foldl (\<lambda>t r. called t (Load_items (o_id r))) s1 os))"

definition get_orders_me ::
  "string \<Rightarrow> db \<Rightarrow> (exn + OrderOut list) \<times> db \<times> session_call list" where
  "get_orders_me user d = get_session (list_my_orders user) d"

section \<open>The catalog service\<close>

text \<open>\<open>session.get(Product, pid)\<close>: the row with that primary key, if any.\<close>

definition get_product_row :: "Product list \<Rightarrow> int \<Rightarrow> Product option" where
  "get_product_row ps pid = find (\<lambda>p. p_id p = pid) ps"

text \<open>
  \<open>create_product\<close>: the flush inserts the row with the next \<open>id\<close> of the sequence; the
  store refuses a \<open>price_cents\<close> or a \<open>stock\<close> outside the range of its column.
\<close>

definition create_product :: "ProductIn \<Rightarrow> session \<Rightarrow> (exn + Product) \<times> session" where
  "create_product payload s =
     (if \<not> int4 (pin_price_cents payload) \<or> \<not> int4 (pin_stock payload)
      then (Inl DataError, called s Flush)
      else
        let d = cur s;
            p = \<lparr>p_id = products_seq d + 1, p_name = pin_name payload,
                 p_price_cents = pin_price_cents payload, p_stock = pin_stock payload\<rparr>;
            d' = d\<lparr>products := products d @ [p], products_seq := products_seq d + 1\<rparr>
        in (Inr p, called (s\<lparr>cur := d'\<rparr>) Flush))"

text \<open>
  \<open>update_product\<close>: 404 when the row is missing, else all three fields are overwritten;
  the store refuses a \<open>price_cents\<close> or a \<open>stock\<close> outside the range of its column.
\<close>

definition update_product :: "int \<Rightarrow> ProductIn \<Rightarrow> session \<Rightarrow> (exn + Product) \<times> session" where
  "update_product pid payload s =
     (case get_product_row (products (cur s)) pid of
        None \<Rightarrow> (Inl (HTTPException 404 Not_found), s)
      | Some p \<Rightarrow>
          if \<not> int4 (pin_price_cents payload) \<or> \<not> int4 (pin_stock payload)
          then (Inl DataError, called s Flush)
          else
            let p' = p\<lparr>p_name := pin_name payload, p_price_cents := pin_price_cents payload,
                       p_stock := pin_stock payload\<rparr>;
                ps' = map (\<lambda>r. if p_id r = pid then p' else r) (products (cur s))
            in (Inr p', called (s\<lparr>cur := (cur s)\<lparr>products := ps'\<rparr>\<rparr>) Flush))"

text \<open>\<open>delete_product\<close>: 404 when the row is missing, else the row is deleted.\<close>

definition delete_product :: "int \<Rightarrow> session \<Rightarrow> (exn + unit) \<times> session" where
  "delete_product pid s =
     (case get_product_row (products (cur s)) pid of
        None \<Rightarrow> (Inl (HTTPException 404 Not_found), s)
      | Some p \<Rightarrow>
          (Inr (), called (s\<lparr>cur := (cur s)\<lparr>products := filter (\<lambda>r. p_id r \<noteq> pid) (products (cur s))\<rparr>\<rparr>)
                     Flush))"

text \<open>
  A write request to the catalog and the database it leaves. Pydantic rejects a body
  that violates the \<open>Field\<close> constraints of \<open>ProductIn\<close> before the endpoint runs.
\<close>

datatype catalog_request =
    Post_product ProductIn
  | Put_product int ProductIn
  | Delete_product int

fun catalog_step :: "catalog_request \<Rightarrow> db \<Rightarrow> db" where
  "catalog_step (Post_product payload) d =
     (if ProductIn_valid payload then fst (snd (catalog_get_session (create_product payload) d))
      else d)"
| "catalog_step (Put_product pid payload) d =
     (if ProductIn_valid payload then fst (snd (catalog_get_session (update_product pid payload) d))
      else d)"
| "catalog_step (Delete_product pid) d = fst (snd (catalog_get_session (delete_product pid) d))"

section \<open>States of the database\<close>

text \<open>The database before any request: empty tables, sequences at their start.\<close>

definition empty_db :: db where
  "empty_db =
     \<lparr>products = [], products_seq = 0, orders = [], orders_seq = 0,
      order_items = [], order_items_seq = 0\<rparr>"

text \<open>
  The states the two services can reach from \<open>empty_db\<close>: by a write to the catalog,
  or by a request to \<open>POST /orders\<close> with any header, any body and any clock value,
  under either behaviour of the framework.
\<close>

inductive reachable :: "db \<Rightarrow> bool" where
  init: "reachable empty_db"
| catalog: "reachable d \<Longrightarrow> reachable (catalog_step req d)"
| order: "reachable d \<Longrightarrow> reachable (fst (snd (route_post_orders fw x_user payload now d)))"

text \<open>
  What the schema declares and the sequences ensure: primary keys are unique and were
  drawn from the sequence, no order item refers to an order that is still to come, and
  the price and the stock of a product fit their columns.
\<close>

definition db_ok :: "db \<Rightarrow> bool" where
  "db_ok d =
     (distinct (map p_id (products d)) \<and> list_all (\<lambda>p. p_id p \<le> products_seq d) (products d) \<and>
      distinct (map o_id (orders d)) \<and> list_all (\<lambda>r. o_id r \<le> orders_seq d) (orders d) \<and>
      distinct (map oi_id (order_items d)) \<and>
      list_all (\<lambda>i. oi_id i \<le> order_items_seq d \<and> oi_order_id i \<le> orders_seq d) (order_items d) \<and>
      list_all (\<lambda>p. int4 (p_price_cents p) \<and> int4 (p_stock p)) (products d))"

text \<open>The stock column holds no negative value.\<close>

definition stock_ok :: "db \<Rightarrow> bool" where
  "stock_ok d = list_all (\<lambda>p. 0 \<le> p_stock p) (products d)"

section \<open>Vocabulary of the properties\<close>

text \<open>The ids of the rows of \<open>products\<close>, and the stock and price of a product.\<close>

definition known :: "db \<Rightarrow> int \<Rightarrow> bool" where
  "known d pid = (pid \<in> set (map p_id (products d)))"

definition stock_of :: "db \<Rightarrow> int \<Rightarrow> int" where
  "stock_of d pid = (case get_product_row (products d) pid of None \<Rightarrow> 0 | Some p \<Rightarrow> p_stock p)"

definition price_of :: "db \<Rightarrow> int \<Rightarrow> int" where
  "price_of d pid = (case get_product_row (products d) pid of None \<Rightarrow> 0 | Some p \<Rightarrow> p_price_cents p)"

text \<open>The distinct elements of a list in the order of their first occurrence.\<close>

fun first_seen :: "'a list \<Rightarrow> 'a list" where
  "first_seen [] = []"
| "first_seen (x # xs) = x # filter (\<lambda>y. y \<noteq> x) (first_seen xs)"

text \<open>The quantity a request asks of a product, over all its entries.\<close>

definition requested :: "OrderItemIn list \<Rightarrow> int \<Rightarrow> int" where
  "requested its pid = sum_list (map in_qty (filter (\<lambda>it. in_product_id it = pid) its))"

text \<open>The request with one entry per product of a dictionary of quantities.\<close>

definition merged :: "OrderItemIn list \<Rightarrow> OrderItemIn list" where
  "merged its = map (\<lambda>(pid, qty). \<lparr>in_product_id = pid, in_qty = qty\<rparr>) (combine its [])"

section \<open>Example data\<close>

text \<open>A catalog of two products, and a request line.\<close>

definition pen :: Product where
  "pen = \<lparr>p_id = 1, p_name = ''pen'', p_price_cents = 250, p_stock = 10\<rparr>"

definition ink :: Product where
  "ink = \<lparr>p_id = 2, p_name = ''ink'', p_price_cents = 400, p_stock = 3\<rparr>"

definition shop :: db where
  "shop = \<lparr>products = [pen, ink], products_seq = 2, orders = [], orders_seq = 0,
           order_items = [], order_items_seq = 0\<rparr>"

definition line :: "int \<Rightarrow> int \<Rightarrow> OrderItemIn" where
  "line pid qty = \<lparr>in_product_id = pid, in_qty = qty\<rparr>"

text \<open>
  Three orders of two users. The stored total of order 3 is not the sum of its items,
  which shows whether a read recomputes it.
\<close>

definition ledger :: db where
  "ledger =
     \<lparr>products = [pen, ink], products_seq = 2,
      orders = [\<lparr>o_id = 1, o_user_id = ''ann'', o_created_at = 10, o_total_cents = 500\<rparr>,
                \<lparr>o_id = 2, o_user_id = ''bob'', o_created_at = 20, o_total_cents = 400\<rparr>,
                \<lparr>o_id = 3, o_user_id = ''ann'', o_created_at = 30, o_total_cents = 999\<rparr>],
      orders_seq = 3,
      order_items = [\<lparr>oi_id = 1, oi_order_id = 1, oi_product_id = 1, oi_qty = 2, oi_price_cents = 250\<rparr>,
                     \<lparr>oi_id = 2, oi_order_id = 2, oi_product_id = 2, oi_qty = 1, oi_price_cents = 400\<rparr>,
                     \<lparr>oi_id = 3, oi_order_id = 3, oi_product_id = 1, oi_qty = 1, oi_price_cents = 250\<rparr>],
      order_items_seq = 3\<rparr>"

text \<open>
  A catalog with one costly product, reached from the empty database by one valid
  \<open>POST /products\<close>, and a user name of 101 characters.
\<close>

definition vault :: db where
  "vault =
     \<lparr>products = [\<lparr>p_id = 1, p_name = ''gold'', p_price_cents = 2000000000, p_stock = 10\<rparr>],
      products_seq = 1, orders = [], orders_seq = 0, order_items = [], order_items_seq = 0\<rparr>"

definition long_name :: string where
  "long_name = replicate 101 CHR ''a''"

text \<open>A later write to the catalog that changes the price and the stock of the pen.\<close>

definition reprice :: catalog_request where
  "reprice = Put_product 1 \<lparr>pin_name = ''pen'', pin_price_cents = 999, pin_stock = 8\<rparr>"

section \<open>Facts about dictionaries and the merge of duplicates\<close>

lemma dict_keys_set:
  "dict_keys (dict_set d k v) = (if k \<in> set (dict_keys d) then dict_keys d else dict_keys d @ [k])"
  by (induction d) (auto simp: dict_keys_def rev_image_eqI)

lemma map_of_dict_set: "map_of (dict_set d k v) = (map_of d)(k \<mapsto> v)"
  by (induction d) (auto simp: fun_eq_iff)

lemma distinct_dict_set:
  "distinct (dict_keys d) \<Longrightarrow> distinct (dict_keys (dict_set d k v))"
  by (simp add: dict_keys_set)

lemma dict_get_set:
  "dict_get (dict_set d k v) k' dflt = (if k' = k then v else dict_get d k' dflt)"
  by (simp add: dict_get_def map_of_dict_set)

lemma dict_get_absent: "k \<notin> set (dict_keys d) \<Longrightarrow> dict_get d k dflt = dflt"
  by (simp add: dict_get_def dict_keys_def map_of_eq_None_iff[THEN iffD2])

lemma dict_set_absent: "k \<notin> set (dict_keys d) \<Longrightarrow> dict_set d k v = d @ [(k, v)]"
  by (induction d) (auto simp: dict_keys_def)

lemma set_first_seen: "set (first_seen xs) = set xs"
  by (induction xs) auto

lemma distinct_first_seen: "distinct (first_seen xs)"
  by (induction xs) (auto simp: set_first_seen)

lemma first_seen_distinct: "distinct xs \<Longrightarrow> first_seen xs = xs"
  by (induction xs) (auto simp: filter_id_conv set_first_seen)

lemma combine_keys:
  "dict_keys (combine its acc) =
     dict_keys acc @ filter (\<lambda>k. k \<notin> set (dict_keys acc)) (first_seen (map in_product_id its))"
proof (induction its arbitrary: acc)
  case Nil
  then show ?case by simp
next
  case (Cons it its)
  show ?case
  proof (cases "in_product_id it \<in> set (dict_keys acc)")
    case True
    then show ?thesis
      by (simp add: Cons.IH dict_keys_set filter_filter) (rule filter_cong, auto)
  next
    case False
    then show ?thesis
      by (simp add: Cons.IH dict_keys_set filter_filter)
  qed
qed

lemma combine_keys_nil: "dict_keys (combine its []) = first_seen (map in_product_id its)"
  using combine_keys[of its "[]"] by (simp add: dict_keys_def)

lemma combine_get:
  "dict_get (combine its acc) pid 0 = dict_get acc pid 0 + requested its pid"
  by (induction its arbitrary: acc) (auto simp: requested_def dict_get_set)

lemma distinct_combine: "distinct (dict_keys acc) \<Longrightarrow> distinct (dict_keys (combine its acc))"
  by (induction its arbitrary: acc) (auto simp: distinct_dict_set)

lemma combine_append_distinct:
  "distinct (dict_keys (acc @ d)) \<Longrightarrow>
   combine (map (\<lambda>(pid, qty). \<lparr>in_product_id = pid, in_qty = qty\<rparr>) d) acc = acc @ d"
proof (induction d arbitrary: acc)
  case Nil
  then show ?case by simp
next
  case (Cons x d)
  obtain k v where x: "x = (k, v)" by (cases x)
  from Cons.prems have k: "k \<notin> set (dict_keys acc)" by (auto simp: dict_keys_def x)
  from Cons.prems have "distinct (dict_keys ((acc @ [(k, v)]) @ d))" by (simp add: x dict_keys_def)
  from Cons.IH[OF this] show ?case
    by (simp add: x dict_get_absent[OF k] dict_set_absent[OF k])
qed

lemma combine_merged: "combine (merged its) [] = combine its []"
  unfolding merged_def
  using combine_append_distinct[of "[]" "combine its []"] distinct_combine[of "[]" its]
  by (simp add: dict_keys_def)

section \<open>Facts about the conditional update and the reservation loop\<close>

lemma update_stock_frame:
  "map p_id (fst (update_stock ps pid qty)) = map p_id ps"
  "map p_name (fst (update_stock ps pid qty)) = map p_name ps"
  "map p_price_cents (fst (update_stock ps pid qty)) = map p_price_cents ps"
  by (simp_all add: update_stock_def)

lemma pk_unique:
  "distinct (map p_id ps) \<Longrightarrow> p \<in> set ps \<Longrightarrow> p' \<in> set ps \<Longrightarrow> p_id p = p_id p' \<Longrightarrow> p = p'"
  by (meson distinct_map inj_on_def)

lemma filter_pk_length:
  "distinct (map p_id ps) \<Longrightarrow> length (filter (\<lambda>p. p_id p = pid \<and> P p) ps) \<le> 1"
proof (induction ps)
  case Nil
  then show ?case by simp
next
  case (Cons a ps)
  then have "p_id a = pid \<Longrightarrow> filter (\<lambda>p. p_id p = pid \<and> P p) ps = []"
    by (auto simp: filter_empty_conv) (metis imageI)
  with Cons show ?case by auto
qed

lemma update_stock_rowcount:
  assumes "distinct (map p_id ps)"
  shows "snd (update_stock ps pid qty) = 1 \<longleftrightarrow> (\<exists>p\<in>set ps. p_id p = pid \<and> qty \<le> p_stock p)"
proof -
  let ?f = "filter (\<lambda>p. p_id p = pid \<and> qty \<le> p_stock p) ps"
  have le: "length ?f \<le> 1" using assms by (rule filter_pk_length)
  have ex: "length ?f \<noteq> 0 \<longleftrightarrow> (\<exists>p\<in>set ps. p_id p = pid \<and> qty \<le> p_stock p)"
    by (simp add: filter_empty_conv)
  have "length ?f = 1 \<longleftrightarrow> length ?f \<noteq> 0" using le by arith
  moreover have "snd (update_stock ps pid qty) = length ?f" by (simp add: update_stock_def)
  ultimately show ?thesis using ex by presburger
qed

lemma update_stock_other:
  "p \<in> set ps \<Longrightarrow> p_id p \<noteq> pid \<Longrightarrow> p \<in> set (fst (update_stock ps pid qty))"
  by (force simp: update_stock_def)

lemma reserve_stock_ok:
  "distinct (map p_id (products (cur s))) \<Longrightarrow> distinct (map fst its) \<Longrightarrow>
   \<forall>(pid, qty)\<in>set its. \<exists>p\<in>set (products (cur s)). p_id p = pid \<and> qty \<le> p_stock p \<Longrightarrow>
   reserve_stock s its =
     (Inr (),
      s\<lparr>cur := (cur s)\<lparr>products :=
                 map (\<lambda>p. p\<lparr>p_stock := p_stock p - dict_get its (p_id p) 0\<rparr>) (products (cur s))\<rparr>,
        calls := calls s @ map (\<lambda>(pid, qty). Execute (UPDATE_stock pid qty)) its\<rparr>)"
proof (induction its arbitrary: s)
  case Nil
  then show ?case by (simp add: dict_get_def)
next
  case (Cons x its)
  obtain pid qty where x: "x = (pid, qty)" by (cases x)
  let ?ps = "products (cur s)"
  let ?s' = "execute (s\<lparr>cur := (cur s)\<lparr>products := fst (update_stock ?ps pid qty)\<rparr>\<rparr>) (UPDATE_stock pid qty)"
  from Cons.prems obtain p0 where p0: "p0 \<in> set ?ps" "p_id p0 = pid" "qty \<le> p_stock p0"
    by (auto simp: x)
  have one: "snd (update_stock ?ps pid qty) = 1"
    using update_stock_rowcount[OF Cons.prems(1), of pid qty] p0 by blast
  have suff: "\<And>p. p \<in> set ?ps \<Longrightarrow> p_id p = pid \<Longrightarrow> qty \<le> p_stock p"
    using pk_unique[OF Cons.prems(1) _ p0(1)] p0 by auto
  have notin: "pid \<notin> set (dict_keys its)" using Cons.prems(2) by (simp add: x dict_keys_def)
  have d1: "distinct (map p_id (products (cur ?s')))"
    using Cons.prems(1) by (simp add: execute_def update_stock_frame)
  have d2: "distinct (map fst its)" using Cons.prems(2) by simp
  have d3: "\<forall>(pid', qty')\<in>set its. \<exists>p\<in>set (products (cur ?s')). p_id p = pid' \<and> qty' \<le> p_stock p"
  proof (clarify)
    fix pid' qty' assume m: "(pid', qty') \<in> set its"
    with Cons.prems(3) obtain p where p: "p \<in> set ?ps" "p_id p = pid'" "qty' \<le> p_stock p" by force
    from m Cons.prems(2) have "pid' \<noteq> pid" by (force simp: x)
    with p have "p \<in> set (fst (update_stock ?ps pid qty))" by (simp add: update_stock_other)
    with p show "\<exists>p\<in>set (products (cur ?s')). p_id p = pid' \<and> qty' \<le> p_stock p"
      by (auto simp: execute_def)
  qed
  have tbl: "map (\<lambda>p. p\<lparr>p_stock := p_stock p - dict_get its (p_id p) 0\<rparr>) (fst (update_stock ?ps pid qty))
           = map (\<lambda>p. p\<lparr>p_stock := p_stock p - dict_get (x # its) (p_id p) 0\<rparr>) ?ps"
    using suff by (auto simp: update_stock_def x dict_get_def dict_get_absent[OF notin, unfolded dict_get_def])
  show ?case
    using Cons.IH[OF d1 d2 d3] one tbl
    by (simp add: x Let_def execute_def)
qed

lemma reserve_stock_frame:
  "map p_id (products (cur (snd (reserve_stock s its)))) = map p_id (products (cur s)) \<and>
   map p_name (products (cur (snd (reserve_stock s its)))) = map p_name (products (cur s)) \<and>
   map p_price_cents (products (cur (snd (reserve_stock s its)))) = map p_price_cents (products (cur s)) \<and>
   orders (cur (snd (reserve_stock s its))) = orders (cur s) \<and>
   order_items (cur (snd (reserve_stock s its))) = order_items (cur s) \<and>
   products_seq (cur (snd (reserve_stock s its))) = products_seq (cur s) \<and>
   orders_seq (cur (snd (reserve_stock s its))) = orders_seq (cur s) \<and>
   order_items_seq (cur (snd (reserve_stock s its))) = order_items_seq (cur s)"
proof (induction its arbitrary: s)
  case Nil
  then show ?case by simp
next
  case (Cons x its)
  obtain pid qty where x: "x = (pid, qty)" by (cases x)
  show ?case
    using Cons.IH[of "execute (s\<lparr>cur := (cur s)\<lparr>products := fst (update_stock (products (cur s)) pid qty)\<rparr>\<rparr>) (UPDATE_stock pid qty)"]
    by (simp add: x Let_def execute_def update_stock_frame)
qed

text \<open>The loop stops at the first item that no row can serve.\<close>

lemma reserve_stock_fail:
  "distinct (map p_id (products (cur s))) \<Longrightarrow> distinct (map fst its) \<Longrightarrow>
   find (\<lambda>(pid, qty). \<not> (\<exists>p\<in>set (products (cur s)). p_id p = pid \<and> qty \<le> p_stock p)) its = Some (pid, qty) \<Longrightarrow>
   fst (reserve_stock s its) = Inl (HTTPException 400 (Insufficient_stock pid))"
proof (induction its arbitrary: s)
  case Nil
  then show ?case by simp
next
  case (Cons x its)
  obtain pid0 qty0 where x: "x = (pid0, qty0)" by (cases x)
  let ?ps = "products (cur s)"
  let ?s' = "execute (s\<lparr>cur := (cur s)\<lparr>products := fst (update_stock ?ps pid0 qty0)\<rparr>\<rparr>) (UPDATE_stock pid0 qty0)"
  show ?case
  proof (cases "\<exists>p\<in>set ?ps. p_id p = pid0 \<and> qty0 \<le> p_stock p")
    case False
    with Cons.prems have "pid = pid0" by (simp add: x)
    moreover have "snd (update_stock ?ps pid0 qty0) \<noteq> 1"
      using update_stock_rowcount[OF Cons.prems(1), of pid0 qty0] False by blast
    ultimately show ?thesis by (simp add: x Let_def)
  next
    case True
    then have one: "snd (update_stock ?ps pid0 qty0) = 1"
      using update_stock_rowcount[OF Cons.prems(1), of pid0 qty0] by blast
    have d1: "distinct (map p_id (products (cur ?s')))"
      using Cons.prems(1) by (simp add: execute_def update_stock_frame)
    have d2: "distinct (map fst its)" using Cons.prems(2) by simp
    have same: "\<And>pid' qty'. (pid', qty') \<in> set its \<Longrightarrow>
        (\<exists>p\<in>set (products (cur ?s')). p_id p = pid' \<and> qty' \<le> p_stock p) =
        (\<exists>p\<in>set ?ps. p_id p = pid' \<and> qty' \<le> p_stock p)"
    proof -
      fix pid' qty' assume m: "(pid', qty') \<in> set its"
      with Cons.prems(2) have "pid' \<noteq> pid0" by (force simp: x)
      then show "(\<exists>p\<in>set (products (cur ?s')). p_id p = pid' \<and> qty' \<le> p_stock p) =
        (\<exists>p\<in>set ?ps. p_id p = pid' \<and> qty' \<le> p_stock p)"
        by (auto simp: execute_def update_stock_def)
    qed
    have "find (\<lambda>(pid, qty). \<not> (\<exists>p\<in>set (products (cur ?s')). p_id p = pid \<and> qty \<le> p_stock p)) its
        = find (\<lambda>(pid, qty). \<not> (\<exists>p\<in>set ?ps. p_id p = pid \<and> qty \<le> p_stock p)) its"
    proof (rule find_cong[OF refl])
      fix y assume m: "y \<in> set its"
      obtain a b where y: "y = (a, b)" by (cases y)
      show "(case y of (pid, qty) \<Rightarrow> \<not> (\<exists>p\<in>set (products (cur ?s')). p_id p = pid \<and> qty \<le> p_stock p))
        = (case y of (pid, qty) \<Rightarrow> \<not> (\<exists>p\<in>set ?ps. p_id p = pid \<and> qty \<le> p_stock p))"
        unfolding y using m by (simp only: prod.case same[of a b] y)
    qed
    also have "\<dots> = Some (pid, qty)" using Cons.prems(3) True by (auto simp: x split: if_splits)
    finally show ?thesis
      using Cons.IH[OF d1 d2] one by (simp add: x Let_def)
  qed
qed

section \<open>Facts about the price lookup\<close>

lemma dict_keys_Nil: "dict_keys [] = []"
  by (simp add: dict_keys_def)

lemma dict_of_rows_keys:
  "set (dict_keys (dict_of_rows rows d)) = set (dict_keys d) \<union> fst ` set rows"
  by (induction rows d rule: dict_of_rows.induct) (auto simp: dict_keys_set)

lemma dict_of_rows_distinct:
  "distinct (dict_keys d) \<Longrightarrow> distinct (dict_keys (dict_of_rows rows d))"
  by (induction rows d rule: dict_of_rows.induct) (auto simp: distinct_dict_set)

lemma dict_of_rows_map_of:
  "map_of (dict_of_rows rows d) = map_of d ++ map_of (rev rows)"
  by (induction rows d rule: dict_of_rows.induct) (auto simp: map_of_dict_set fun_eq_iff map_add_def split: option.splits)

lemma map_of_rev_distinct: "distinct (map fst xs) \<Longrightarrow> map_of (rev xs) = map_of xs"
proof (induction xs)
  case Nil
  then show ?case by simp
next
  case (Cons x xs)
  then have "map_of xs (fst x) = None" by (simp add: map_of_eq_None_iff)
  with Cons show ?case
    by (cases x) (auto simp: fun_eq_iff map_add_def split: option.splits)
qed

lemma map_of_price_rows:
  "map_of (map (\<lambda>p. (p_id p, p_price_cents p)) (filter (\<lambda>p. p_id p \<in> A) ps)) pid =
     (if pid \<in> A then map_option p_price_cents (find (\<lambda>p. p_id p = pid) ps) else None)"
  by (induction ps) auto

lemma fetch_prices_cur: "cur (snd (fetch_prices s ids)) = cur s"
  by (simp add: fetch_prices_def execute_def Let_def)

lemma fetch_prices_calls:
  "calls (snd (fetch_prices s ids)) =
     calls s @ (if ids = [] then [] else [Execute (SELECT_prices ids)])"
  by (simp add: fetch_prices_def execute_def Let_def)

lemma fetch_prices_keys:
  "set (dict_keys (fst (fetch_prices s ids))) = set ids \<inter> set (map p_id (products (cur s)))"
  by (auto simp: fetch_prices_def Let_def dict_of_rows_keys dict_keys_Nil image_iff)

lemma fetch_prices_distinct: "distinct (dict_keys (fst (fetch_prices s ids)))"
  by (simp add: fetch_prices_def Let_def dict_of_rows_distinct dict_keys_Nil)

lemma fetch_prices_length:
  assumes "distinct ids"
  shows "length (fst (fetch_prices s ids)) = length ids \<longleftrightarrow>
         set ids \<subseteq> set (map p_id (products (cur s)))"
proof -
  let ?K = "set ids \<inter> set (map p_id (products (cur s)))"
  have "length (fst (fetch_prices s ids)) = length (dict_keys (fst (fetch_prices s ids)))"
    by (simp add: dict_keys_def)
  also have "\<dots> = card ?K"
    using distinct_card[OF fetch_prices_distinct[of s ids]] by (simp only: fetch_prices_keys)
  finally have l: "length (fst (fetch_prices s ids)) = card ?K" .
  have r: "length ids = card (set ids)" using assms by (simp add: distinct_card)
  show ?thesis
  proof
    assume "length (fst (fetch_prices s ids)) = length ids"
    with l r have "card ?K = card (set ids)" by simp
    then have "?K = set ids" by (intro card_subset_eq) auto
    then show "set ids \<subseteq> set (map p_id (products (cur s)))" by blast
  next
    assume "set ids \<subseteq> set (map p_id (products (cur s)))"
    then have "?K = set ids" by blast
    with l r show "length (fst (fetch_prices s ids)) = length ids" by simp
  qed
qed

lemma fetch_prices_map_of:
  assumes "distinct (map p_id (products (cur s)))" and "pid \<in> set ids"
  shows "map_of (fst (fetch_prices s ids)) pid =
         map_option p_price_cents (get_product_row (products (cur s)) pid)"
proof -
  let ?rows = "map (\<lambda>p. (p_id p, p_price_cents p)) (filter (\<lambda>p. p_id p \<in> set ids) (products (cur s)))"
  have "distinct (map fst ?rows)"
    using assms(1) by (simp add: comp_def distinct_map_filter)
  then have "map_of (rev ?rows) = map_of ?rows" by (rule map_of_rev_distinct)
  moreover have "ids \<noteq> []" using assms(2) by auto
  ultimately show ?thesis
    using assms(2)
    by (simp add: fetch_prices_def Let_def dict_of_rows_map_of map_of_price_rows get_product_row_def)
qed

section \<open>Facts about the construction of the order\<close>

lemma snapshot_ok:
  "\<forall>(pid, qty)\<in>set its. map_of prices pid = Some (pr pid) \<Longrightarrow>
   snapshot prices oid its t pend =
     Inr (t + sum_list (map (\<lambda>(pid, qty). pr pid * qty) its),
          pend @ map (\<lambda>(pid, qty). \<lparr>oi_id = 0, oi_order_id = oid, oi_product_id = pid,
                                   oi_qty = qty, oi_price_cents = pr pid\<rparr>) its)"
  by (induction its arbitrary: t pend) (auto simp: algebra_simps)

lemma insert_items_frame:
  "insert_items d pend = Inr d' \<Longrightarrow>
   products d' = products d \<and> products_seq d' = products_seq d \<and>
   orders d' = orders d \<and> orders_seq d' = orders_seq d"
proof (induction pend arbitrary: d)
  case Nil
  then show ?case by simp
next
  case (Cons i pend)
  from Cons.prems have fit: "int4 (oi_qty i) \<and> int4 (oi_price_cents i)"
    by (simp split: if_splits)
  with Cons.prems Cons.IH[of "d\<lparr>order_items := order_items d @ [i\<lparr>oi_id := order_items_seq d + 1\<rparr>],
                  order_items_seq := order_items_seq d + 1\<rparr>"]
  show ?case by simp
qed

lemma insert_items_rows:
  "insert_items d pend = Inr d' \<Longrightarrow>
   map (\<lambda>i. (oi_order_id i, item_out i)) (order_items d') =
     map (\<lambda>i. (oi_order_id i, item_out i)) (order_items d) @
     map (\<lambda>i. (oi_order_id i, item_out i)) pend"
proof (induction pend arbitrary: d)
  case Nil
  then show ?case by simp
next
  case (Cons i pend)
  from Cons.prems have fit: "int4 (oi_qty i) \<and> int4 (oi_price_cents i)"
    by (simp split: if_splits)
  with Cons.prems Cons.IH[of "d\<lparr>order_items := order_items d @ [i\<lparr>oi_id := order_items_seq d + 1\<rparr>],
                  order_items_seq := order_items_seq d + 1\<rparr>"]
  show ?case by (simp add: item_out_def)
qed

lemma insert_items_fits:
  "list_all (\<lambda>i. int4 (oi_qty i) \<and> int4 (oi_price_cents i)) pend \<Longrightarrow>
   \<exists>d'. insert_items d pend = Inr d'"
  by (induction pend arbitrary: d) simp_all

lemma insert_items_Inl: "insert_items d pend = Inl e \<Longrightarrow> e = DataError"
  by (induction pend arbitrary: d) (auto split: if_splits)

lemma items_of_rows:
  "map item_out (items_of d oid) =
     map snd (filter (\<lambda>x. fst x = oid) (map (\<lambda>i. (oi_order_id i, item_out i)) (order_items d)))"
  by (simp add: items_of_def filter_map comp_def)

lemma set_total_fresh:
  "int4 t \<Longrightarrow> list_all (\<lambda>r. o_id r \<noteq> oid) os \<Longrightarrow>
   set_total (os @ [r0]) oid t =
     Inr (os @ [if o_id r0 = oid then r0\<lparr>o_total_cents := t\<rparr> else r0])"
  by (induction os) (auto simp: set_total_def)

lemma find_fresh: "list_all (\<lambda>r. o_id r \<noteq> oid) os \<Longrightarrow> find (\<lambda>r. o_id r = oid) os = None"
  by (induction os) auto

section \<open>The paths through \<open>create_order\<close>\<close>

lemma rolled_back_same:
  "products_seq d' = products_seq d \<Longrightarrow> orders_seq d' = orders_seq d \<Longrightarrow>
   order_items_seq d' = order_items_seq d \<Longrightarrow> rolled_back d d' = d"
  by (simp add: rolled_back_def)

lemma combine_nonempty: "its \<noteq> [] \<Longrightarrow> dict_keys (combine its []) \<noteq> []"
  by (cases its) (simp_all only: combine_keys_nil list.map first_seen.simps, simp_all)

lemma combine_keys_set: "set (dict_keys (combine its [])) = set (map in_product_id its)"
  by (simp add: combine_keys_nil set_first_seen)

lemma create_order_empty:
  "items payload = [] \<Longrightarrow>
   create_order payload user now s = (Inl (HTTPException 400 Items_must_not_be_empty), s)"
  by (simp add: create_order_def)

lemma create_order_unknown:
  assumes "items payload \<noteq> []"
    and "\<not> set (map in_product_id (items payload)) \<subseteq> set (map p_id (products (cur s)))"
  shows "create_order payload user now s =
     (Inl (HTTPException 400
            (Unknown_products
               (sorted_list_of_set
                  (set (map in_product_id (items payload)) - set (map p_id (products (cur s))))))),
      execute s (SELECT_prices (first_seen (map in_product_id (items payload)))))"
proof -
  let ?ids = "dict_keys (combine (items payload) [])"
  have ne: "?ids \<noteq> []" using assms(1) by (rule combine_nonempty)
  have dist: "distinct ?ids" by (simp add: distinct_combine dict_keys_Nil)
  have "length (fst (fetch_prices s ?ids)) \<noteq> length ?ids"
    using fetch_prices_length[OF dist, of s] assms(2) by (simp only: combine_keys_set) blast
  moreover have "set ?ids - set (dict_keys (fst (fetch_prices s ?ids)))
      = set (map in_product_id (items payload)) - set (map p_id (products (cur s)))"
    by (simp only: fetch_prices_keys combine_keys_set) blast
  moreover have "snd (fetch_prices s ?ids) = execute s (SELECT_prices ?ids)"
    using ne by (simp add: fetch_prices_def Let_def)
  ultimately show ?thesis
    using assms(1) by (simp add: create_order_def Let_def case_prod_beta combine_keys_nil)
qed

lemma create_order_raise:
  assumes "items payload \<noteq> []"
    and "set (map in_product_id (items payload)) \<subseteq> set (map p_id (products (cur s)))"
    and "fst (reserve_stock (execute s (SELECT_prices (dict_keys (combine (items payload) []))))
               (combine (items payload) [])) = Inl e"
  shows "create_order payload user now s =
     (Inl e, snd (reserve_stock (execute s (SELECT_prices (dict_keys (combine (items payload) []))))
                   (combine (items payload) [])))"
proof -
  let ?ids = "dict_keys (combine (items payload) [])"
  have ne: "?ids \<noteq> []" using assms(1) by (rule combine_nonempty)
  have dist: "distinct ?ids" by (simp add: distinct_combine dict_keys_Nil)
  have len: "length (fst (fetch_prices s ?ids)) = length ?ids"
    using fetch_prices_length[OF dist, of s] assms(2) by (simp only: combine_keys_set)
  have s1: "snd (fetch_prices s ?ids) = execute s (SELECT_prices ?ids)"
    using ne by (simp add: fetch_prices_def Let_def)
  obtain r s2 where rs: "reserve_stock (execute s (SELECT_prices ?ids)) (combine (items payload) []) = (r, s2)"
    by (cases "reserve_stock (execute s (SELECT_prices ?ids)) (combine (items payload) [])")
  with assms(3) have r: "r = Inl e" by simp
  show ?thesis
    using assms(1) len by (simp add: create_order_def Let_def case_prod_beta s1 rs r)
qed

lemma find_app:
  "find P (xs @ ys) = (case find P xs of None \<Rightarrow> find P ys | Some x \<Rightarrow> Some x)"
  by (induction xs) auto

lemma known_row:
  "pid \<in> set (map p_id ps) \<Longrightarrow> \<exists>p. get_product_row ps pid = Some p \<and> p \<in> set ps \<and> p_id p = pid"
  by (induction ps) (auto simp: get_product_row_def)

lemma create_order_ok:
  fixes payload user now s
  defines "combined \<equiv> combine (items payload) []"
  defines "d \<equiv> cur s"
  defines "oid \<equiv> orders_seq (cur s) + 1"
  defines "total_c \<equiv> sum_list (map (\<lambda>(pid, qty). price_of (cur s) pid * qty) combined)"
  assumes ne: "items payload \<noteq> []"
    and pk: "distinct (map p_id (products d))"
    and fresh: "list_all (\<lambda>r. o_id r \<noteq> oid) (orders d)"
    and suff: "\<forall>(pid, qty)\<in>set combined. \<exists>p\<in>set (products d). p_id p = pid \<and> qty \<le> p_stock p"
    and ulen: "length user \<le> 100"
    and tfit: "int4 total_c"
    and ifit: "list_all (\<lambda>(pid, qty). int4 qty \<and> int4 (price_of d pid)) combined"
  shows "\<exists>d4.
     insert_items
       (d\<lparr>products := map (\<lambda>p. p\<lparr>p_stock := p_stock p - dict_get combined (p_id p) 0\<rparr>)
                         (products d),
          orders_seq := oid,
          orders := orders d @ [\<lparr>o_id = oid, o_user_id = user, o_created_at = now,
                                 o_total_cents = total_c\<rparr>]\<rparr>)
       (map (\<lambda>(pid, qty). \<lparr>oi_id = 0, oi_order_id = oid, oi_product_id = pid,
                              oi_qty = qty, oi_price_cents = price_of d pid\<rparr>) combined) = Inr d4 \<and>
     create_order payload user now s =
       (Inr \<lparr>oo_id = oid, oo_user_id = user, oo_total_cents = total_c,
             oo_items = map item_out (items_of d4 oid)\<rparr>,
        s\<lparr>cur := d4,
          calls := calls s @ [Execute (SELECT_prices (dict_keys combined))] @
                   map (\<lambda>(pid, qty). Execute (UPDATE_stock pid qty)) combined @
                   [Flush, Flush, Refresh oid, Load_items oid]\<rparr>)"
proof -
  let ?ids = "dict_keys combined"
  let ?s1 = "execute s (SELECT_prices ?ids)"
  let ?D = "d\<lparr>products := map (\<lambda>p. p\<lparr>p_stock := p_stock p - dict_get combined (p_id p) 0\<rparr>)
                         (products d),
          orders_seq := oid,
          orders := orders d @ [\<lparr>o_id = oid, o_user_id = user, o_created_at = now,
                                 o_total_cents = total_c\<rparr>]\<rparr>"
  let ?new = "map (\<lambda>(pid, qty). \<lparr>oi_id = 0, oi_order_id = oid, oi_product_id = pid,
                              oi_qty = qty, oi_price_cents = price_of d pid\<rparr>) combined"
  have idsne: "?ids \<noteq> []" unfolding combined_def using ne by (rule combine_nonempty)
  have dist: "distinct ?ids" unfolding combined_def by (simp add: distinct_combine dict_keys_Nil)
  have known: "set ?ids \<subseteq> set (map p_id (products d))"
    using suff by (auto simp: dict_keys_def)
  have len: "length (fst (fetch_prices s ?ids)) = length ?ids"
    using fetch_prices_length[OF dist, of s] known by (simp add: d_def)
  have s1: "snd (fetch_prices s ?ids) = ?s1"
    using idsne by (simp add: fetch_prices_def Let_def)
  have cur1: "cur ?s1 = d" by (simp add: execute_def d_def)
  have rs: "reserve_stock ?s1 combined =
     (Inr (),
      ?s1\<lparr>cur := (cur ?s1)\<lparr>products :=
                 map (\<lambda>p. p\<lparr>p_stock := p_stock p - dict_get combined (p_id p) 0\<rparr>) (products (cur ?s1))\<rparr>,
        calls := calls ?s1 @ map (\<lambda>(pid, qty). Execute (UPDATE_stock pid qty)) combined\<rparr>)"
    by (rule reserve_stock_ok) (use pk suff dist in \<open>simp_all add: execute_def d_def dict_keys_def\<close>)
  have pr: "\<forall>(pid, qty)\<in>set combined. map_of (fst (fetch_prices s ?ids)) pid = Some (price_of d pid)"
  proof (clarify)
    fix pid qty assume m: "(pid, qty) \<in> set combined"
    then have mem: "pid \<in> set ?ids" by (force simp: dict_keys_def)
    with known obtain p where "get_product_row (products d) pid = Some p"
      using known_row[of pid "products d"] by blast
    then show "map_of (fst (fetch_prices s ?ids)) pid = Some (price_of d pid)"
      using fetch_prices_map_of[OF pk[unfolded d_def] mem] by (simp add: price_of_def d_def)
  qed
  have snap: "snapshot (fst (fetch_prices s ?ids)) oid combined 0 [] = Inr (total_c, ?new)"
    using snapshot_ok[OF pr, of oid 0 "[]"] by (simp add: total_c_def d_def)
  have fnd: "find (\<lambda>r. o_id r = oid)
       (orders d @ [\<lparr>o_id = oid, o_user_id = user, o_created_at = now, o_total_cents = total_c\<rparr>])
     = Some \<lparr>o_id = oid, o_user_id = user, o_created_at = now, o_total_cents = total_c\<rparr>"
    by (simp add: find_app find_fresh[OF fresh])
  have st: "set_total (orders d @ [\<lparr>o_id = oid, o_user_id = user, o_created_at = now, o_total_cents = 0\<rparr>]) oid total_c
     = Inr (orders d @ [\<lparr>o_id = oid, o_user_id = user, o_created_at = now, o_total_cents = total_c\<rparr>])"
    using set_total_fresh[OF tfit fresh] by simp
  have io: "insert_order (d\<lparr>products := map (\<lambda>p. p\<lparr>p_stock := p_stock p - dict_get combined (p_id p) 0\<rparr>)
                         (products d)\<rparr>) user now 0 =
      Inr (d\<lparr>products := map (\<lambda>p. p\<lparr>p_stock := p_stock p - dict_get combined (p_id p) 0\<rparr>)
                         (products d),
             orders := orders d @ [\<lparr>o_id = oid, o_user_id = user, o_created_at = now,
                                    o_total_cents = 0\<rparr>],
             orders_seq := oid\<rparr>)"
    using ulen by (simp add: insert_order_def int4_def oid_def d_def)
  have "list_all (\<lambda>i. int4 (oi_qty i) \<and> int4 (oi_price_cents i)) ?new"
    using ifit by (auto simp: list_all_iff)
  from insert_items_fits[OF this, of ?D] obtain d4 where ii: "insert_items ?D ?new = Inr d4" by blast
  note fr = insert_items_frame[OF ii]
  note un = d_def oid_def
  note facts = rs[unfolded execute_def] io[unfolded un] snap[unfolded un] st[unfolded un]
    ii[unfolded un] fr[unfolded un] fnd[unfolded un]
  have "create_order payload user now s =
       (Inr \<lparr>oo_id = oid, oo_user_id = user, oo_total_cents = total_c,
             oo_items = map item_out (items_of d4 oid)\<rparr>,
        s\<lparr>cur := d4,
          calls := calls s @ [Execute (SELECT_prices (dict_keys combined))] @
                   map (\<lambda>(pid, qty). Execute (UPDATE_stock pid qty)) combined @
                   [Flush, Flush, Refresh oid, Load_items oid]\<rparr>)"
    unfolding un
    using ne len
    apply (simp add: create_order_def Let_def case_prod_beta s1 combined_def[symmetric])
    apply (simp add: rs Let_def)
    apply (simp add: execute_def called_def facts order_out_def Let_def)+
    done
  with ii show ?thesis by blast
qed

section \<open>Rejected requests\<close>

text \<open>Called with an empty list, \<open>create_order\<close> raises before it sends a statement.\<close>

lemma post_orders_empty:
  "items payload = [] \<Longrightarrow>
   post_orders payload user now d =
     (Inl (HTTPException 400 Items_must_not_be_empty), d, [Execute CREATE_SCHEMA, Rollback])"
  by (simp add: post_orders_def get_session_def create_order_empty execute_def rolled_back_same)

text \<open>On a body that passes the validation, the route is \<open>create_order\<close> under its session.\<close>

lemma route_post_orders_valid:
  "require_user x_user = Inr user \<Longrightarrow> OrderCreate_valid payload \<Longrightarrow>
   route_post_orders fw x_user payload now d = post_orders payload user now d"
  by (simp add: route_post_orders_def post_orders_def)

lemma route_post_orders_invalid:
  "require_user x_user = Inr user \<Longrightarrow> \<not> OrderCreate_valid payload \<Longrightarrow>
   route_post_orders fw x_user payload now d =
     (Inl RequestValidationError, d,
      [Execute CREATE_SCHEMA,
       case fw of Raises_inside_dependencies \<Rightarrow> Rollback | Raises_after_dependencies \<Rightarrow> Commit])"
  by (cases fw) (simp_all add: route_post_orders_def get_session_def execute_def rolled_back_same)

lemma route_post_orders_refused:
  "require_user x_user = Inl e \<Longrightarrow> route_post_orders fw x_user payload now d = (Inl e, d, [])"
  by (simp add: route_post_orders_def)

text \<open>
  C8, as stated, fails: a request with an empty items list is rejected by the validation
  of the body, but the session dependency has by then executed
  \<open>CREATE SCHEMA IF NOT EXISTS\<close>, so one statement has reached the store before the
  request is rejected, whichever way the framework then closes the session. A request
  without the \<open>X-User\<close> header is refused before that, with status 401.
\<close>

theorem C8_empty_items_reach_store:
  "route_post_orders Raises_inside_dependencies (Some ''ann'') \<lparr>items = []\<rparr> 0 shop =
     (Inl RequestValidationError, shop, [Execute CREATE_SCHEMA, Rollback]) \<and>
   route_post_orders Raises_after_dependencies (Some ''ann'') \<lparr>items = []\<rparr> 0 shop =
     (Inl RequestValidationError, shop, [Execute CREATE_SCHEMA, Commit]) \<and>
   route_post_orders Raises_inside_dependencies None \<lparr>items = []\<rparr> 0 shop =
     (Inl (HTTPException 401 Missing_X_User), shop, [])"
  by (simp add: route_post_orders_def require_user_def OrderCreate_valid_def get_session_def
        execute_def rolled_back_same)

text \<open>
  C8, amended: a request to \<open>POST /orders\<close> with an empty items list never reaches
  \<open>create_order\<close>. Without an \<open>X-User\<close> header it is refused with status 401 before a
  session is opened. With the header it fails with the validation error of the body,
  status 422; no query and no mutation reaches the store and the database is left as
  it was; the one statement the session has sent is its \<open>CREATE SCHEMA IF NOT EXISTS\<close>,
  followed by the rollback or the commit that closes the session.
\<close>

theorem C8_empty_items_rejected:
  assumes "items payload = []"
  shows "route_post_orders fw x_user payload now d =
     (case require_user x_user of
        Inl e \<Rightarrow> (Inl e, d, [])
      | Inr user \<Rightarrow>
          (Inl RequestValidationError, d,
           [Execute CREATE_SCHEMA,
            case fw of Raises_inside_dependencies \<Rightarrow> Rollback
                     | Raises_after_dependencies \<Rightarrow> Commit]))"
proof (cases "require_user x_user")
  case (Inl e)
  then show ?thesis by (simp add: route_post_orders_refused)
next
  case (Inr user)
  from assms have "\<not> OrderCreate_valid payload" by (simp add: OrderCreate_valid_def)
  from route_post_orders_invalid[OF Inr this] Inr show ?thesis by simp
qed

theorem C8_empty_items_rejected_witness:
  "items \<lparr>items = []\<rparr> = [] \<and>
   route_post_orders Raises_inside_dependencies (Some ''ann'') \<lparr>items = []\<rparr> 0 shop =
     (Inl RequestValidationError, shop, [Execute CREATE_SCHEMA, Rollback]) \<and>
   route_post_orders Raises_after_dependencies (Some ''ann'') \<lparr>items = []\<rparr> 0 shop =
     (Inl RequestValidationError, shop, [Execute CREATE_SCHEMA, Commit]) \<and>
   route_post_orders Raises_inside_dependencies None \<lparr>items = []\<rparr> 0 shop =
     (Inl (HTTPException 401 Missing_X_User), shop, [])"
proof -
  have h: "items \<lparr>items = []\<rparr> = []" by simp
  show ?thesis
    using h
      C8_empty_items_rejected[OF h, of Raises_inside_dependencies "Some ''ann''" 0 shop]
      C8_empty_items_rejected[OF h, of Raises_after_dependencies "Some ''ann''" 0 shop]
      C8_empty_items_rejected[OF h, of Raises_inside_dependencies None 0 shop]
    by (simp add: require_user_def)
qed

section \<open>Unknown products\<close>

lemma post_orders_unknown:
  assumes "\<not> set (map in_product_id (items payload)) \<subseteq> set (map p_id (products d))"
  shows "post_orders payload user now d =
     (Inl (HTTPException 400
            (Unknown_products
               (sorted_list_of_set
                  (set (map in_product_id (items payload)) - set (map p_id (products d)))))),
      d,
      [Execute CREATE_SCHEMA,
       Execute (SELECT_prices (first_seen (map in_product_id (items payload)))), Rollback])"
proof -
  from assms have ne: "items payload \<noteq> []" by auto
  show ?thesis
    using create_order_unknown[OF ne, of "execute \<lparr>cur = d, calls = []\<rparr> CREATE_SCHEMA" user now] assms
    by (simp add: post_orders_def get_session_def execute_def rolled_back_same)
qed

text \<open>
  C4: when some requested product id is absent from the catalog, \<open>POST /orders\<close> fails with
  status 400, \<open>unknown product(s)\<close>, naming exactly the requested ids that are absent, in
  strictly ascending order; the database is left as it was, and the session has sent no
  statement but the schema statement and the price query before it is rolled back.
\<close>

theorem C4_unknown_product:
  assumes "\<exists>it\<in>set (items payload). \<not> known d (in_product_id it)"
  defines "missing \<equiv>
     sorted_list_of_set {pid \<in> set (map in_product_id (items payload)). \<not> known d pid}"
  shows "post_orders payload user now d =
       (Inl (HTTPException 400 (Unknown_products missing)), d,
        [Execute CREATE_SCHEMA,
         Execute (SELECT_prices (first_seen (map in_product_id (items payload)))), Rollback]) \<and>
     sorted_wrt (<) missing \<and>
     set missing = {pid \<in> set (map in_product_id (items payload)). \<not> known d pid}"
proof -
  let ?A = "set (map in_product_id (items payload)) - set (map p_id (products d))"
  have A: "{pid \<in> set (map in_product_id (items payload)). \<not> known d pid} = ?A"
    by (auto simp: known_def)
  from assms(1) have "\<not> set (map in_product_id (items payload)) \<subseteq> set (map p_id (products d))"
    by (auto simp: known_def)
  from post_orders_unknown[OF this, of user now]
  have "post_orders payload user now d =
       (Inl (HTTPException 400 (Unknown_products missing)), d,
        [Execute CREATE_SCHEMA,
         Execute (SELECT_prices (first_seen (map in_product_id (items payload)))), Rollback])"
    by (simp only: missing_def A)
  moreover have "sorted_wrt (<) missing" by (simp add: missing_def)
  moreover have "set missing = {pid \<in> set (map in_product_id (items payload)). \<not> known d pid}"
    by (simp add: missing_def)
  ultimately show ?thesis by blast
qed

lemma sorted_pair_unique:
  "sorted_wrt (<) xs \<Longrightarrow> set xs = {a, b} \<Longrightarrow> a < b \<Longrightarrow> xs = [a, b::int]"
proof -
  assume a: "sorted_wrt (<) xs" "set xs = {a, b}" "a < b"
  then have "sorted xs" "distinct xs" by (simp_all add: strict_sorted_iff)
  with a(2,3) show ?thesis by (intro sorted_distinct_set_unique) auto
qed

theorem C4_unknown_product_witness:
  "(\<exists>it\<in>set (items \<lparr>items = [line 5 2, line 3 4, line 1 4]\<rparr>). \<not> known shop (in_product_id it)) \<and>
   post_orders \<lparr>items = [line 5 2, line 3 4, line 1 4]\<rparr> ''ann'' 0 shop =
     (Inl (HTTPException 400 (Unknown_products [3, 5])), shop,
      [Execute CREATE_SCHEMA, Execute (SELECT_prices [5, 3, 1]), Rollback])"
proof -
  let ?its = "[line 5 2, line 3 4, line 1 4]"
  have h: "\<exists>it\<in>set (items \<lparr>items = ?its\<rparr>). \<not> known shop (in_product_id it)"
    by (simp add: known_def shop_def line_def pen_def ink_def)
  have A: "{pid \<in> set (map in_product_id (items \<lparr>items = ?its\<rparr>)). \<not> known shop pid} = {3, 5}"
    by (auto simp: known_def shop_def line_def pen_def ink_def)
  note th = C4_unknown_product[OF h, of "''ann''" 0, unfolded A]
  from th have "sorted_list_of_set {3, 5::int} = [3, 5]"
    by (intro sorted_pair_unique) simp_all
  moreover have "first_seen (map in_product_id (items \<lparr>items = ?its\<rparr>)) = [5, 3, 1]"
    by (simp add: line_def)
  ultimately show ?thesis using th h by (simp add: line_def)
qed

section \<open>Insufficient stock\<close>

lemma row_stock:
  assumes "distinct (map p_id ps)" and "pid \<in> set (map p_id ps)"
  shows "(\<exists>p\<in>set ps. p_id p = pid \<and> qty \<le> p_stock p) \<longleftrightarrow>
         qty \<le> (case get_product_row ps pid of None \<Rightarrow> 0 | Some p \<Rightarrow> p_stock p)"
proof -
  from known_row[OF assms(2)] obtain p0 where
    p0: "get_product_row ps pid = Some p0" "p0 \<in> set ps" "p_id p0 = pid" by blast
  have u: "\<And>p. p \<in> set ps \<Longrightarrow> p_id p = pid \<Longrightarrow> p = p0"
    using pk_unique[OF assms(1) _ p0(2)] p0(3) by simp
  have "(\<exists>p\<in>set ps. p_id p = pid \<and> qty \<le> p_stock p) \<longleftrightarrow> qty \<le> p_stock p0"
  proof
    assume "\<exists>p\<in>set ps. p_id p = pid \<and> qty \<le> p_stock p"
    then obtain p where "p \<in> set ps" "p_id p = pid" "qty \<le> p_stock p" by blast
    with u[of p] show "qty \<le> p_stock p0" by simp
  next
    assume "qty \<le> p_stock p0"
    with p0(2,3) show "\<exists>p\<in>set ps. p_id p = pid \<and> qty \<le> p_stock p" by blast
  qed
  then show ?thesis by (simp add: p0(1))
qed

lemma combine_entry:
  "(pid, qty) \<in> set (combine its []) \<longleftrightarrow>
     pid \<in> set (map in_product_id its) \<and> qty = requested its pid"
proof -
  have dist: "distinct (map fst (combine its []))"
    using distinct_combine[of "[]" its] by (simp add: dict_keys_def)
  have get: "\<And>k. dict_get (combine its []) k 0 = requested its k"
    using combine_get[of its "[]"] by (simp add: dict_get_def)
  show ?thesis
  proof
    assume m: "(pid, qty) \<in> set (combine its [])"
    then have "map_of (combine its []) pid = Some qty" using dist by simp
    then have "dict_get (combine its []) pid 0 = qty" by (simp add: dict_get_def)
    moreover from m have "pid \<in> set (dict_keys (combine its []))" by (force simp: dict_keys_def)
    ultimately show "pid \<in> set (map in_product_id its) \<and> qty = requested its pid"
      by (simp only: get combine_keys_set)
  next
    assume a: "pid \<in> set (map in_product_id its) \<and> qty = requested its pid"
    then have "pid \<in> set (dict_keys (combine its []))" by (simp only: combine_keys_set)
    then obtain v where v: "(pid, v) \<in> set (combine its [])" by (auto simp: dict_keys_def)
    then have "map_of (combine its []) pid = Some v" using dist by simp
    then have "dict_get (combine its []) pid 0 = v" by (simp add: dict_get_def)
    with a v show "(pid, qty) \<in> set (combine its [])" by (simp add: get)
  qed
qed

lemma combine_requested:
  "combine its [] = map (\<lambda>pid. (pid, requested its pid)) (first_seen (map in_product_id its))"
proof -
  have "\<forall>x\<in>set (combine its []). x = (fst x, requested its (fst x))"
  proof
    fix x assume "x \<in> set (combine its [])"
    then have "(fst x, snd x) \<in> set (combine its [])" by simp
    then have "snd x = requested its (fst x)" by (simp only: combine_entry)
    then show "x = (fst x, requested its (fst x))" by (cases x) simp
  qed
  then have "map (\<lambda>x. (fst x, requested its (fst x))) (combine its []) = combine its []"
    by (simp add: map_idI)
  then have "combine its [] = map (\<lambda>pid. (pid, requested its pid)) (map fst (combine its []))"
    by (simp add: comp_def)
  then show ?thesis
    using combine_keys_nil[of its] by (simp only: dict_keys_def)
qed

section \<open>Insufficient stock: the error and the rollback\<close>

lemma find_map_option: "find P (map f xs) = map_option f (find (\<lambda>x. P (f x)) xs)"
  by (induction xs) auto

lemma stock_of_row:
  assumes "distinct (map p_id (products d))" and "known d pid"
  shows "(\<not> (\<exists>p\<in>set (products d). p_id p = pid \<and> qty \<le> p_stock p)) \<longleftrightarrow> stock_of d pid < qty"
  using row_stock[OF assms(1), of pid qty] assms(2)
  by (simp add: known_def stock_of_def not_le)

lemma first_insufficient:
  assumes pk: "distinct (map p_id (products (cur s)))"
    and known: "\<forall>it\<in>set its. known (cur s) (in_product_id it)"
  shows "find (\<lambda>(pid, qty). \<not> (\<exists>p\<in>set (products (cur s)). p_id p = pid \<and> qty \<le> p_stock p))
           (combine its []) =
         map_option (\<lambda>pid. (pid, requested its pid))
           (find (\<lambda>pid. stock_of (cur s) pid < requested its pid)
              (first_seen (map in_product_id its)))"
proof -
  have "find (\<lambda>pid. \<not> (\<exists>p\<in>set (products (cur s)). p_id p = pid \<and> requested its pid \<le> p_stock p))
          (first_seen (map in_product_id its))
      = find (\<lambda>pid. stock_of (cur s) pid < requested its pid) (first_seen (map in_product_id its))"
  proof (rule find_cong[OF refl])
    fix pid assume "pid \<in> set (first_seen (map in_product_id its))"
    then have "known (cur s) pid" using known by (auto simp: set_first_seen)
    from stock_of_row[OF pk this]
    show "(\<not> (\<exists>p\<in>set (products (cur s)). p_id p = pid \<and> requested its pid \<le> p_stock p))
        = (stock_of (cur s) pid < requested its pid)" .
  qed
  then show ?thesis
    by (simp add: combine_requested find_map_option)
qed

lemma post_orders_insufficient:
  assumes pk: "distinct (map p_id (products d))"
    and known: "\<forall>it\<in>set (items payload). known d (in_product_id it)"
    and fnd: "find (\<lambda>pid. stock_of d pid < requested (items payload) pid)
                (first_seen (map in_product_id (items payload))) = Some pid"
  shows "fst (post_orders payload user now d) = Inl (HTTPException 400 (Insufficient_stock pid)) \<and>
         fst (snd (post_orders payload user now d)) = d"
proof -
  let ?s0 = "execute \<lparr>cur = d, calls = []\<rparr> CREATE_SCHEMA"
  let ?C = "combine (items payload) []"
  let ?s1 = "execute ?s0 (SELECT_prices (dict_keys ?C))"
  from fnd have ne: "items payload \<noteq> []" by auto
  have sub: "set (map in_product_id (items payload)) \<subseteq> set (map p_id (products (cur ?s0)))"
    using known by (auto simp: known_def execute_def)
  have cur1: "cur ?s1 = d" by (simp add: execute_def)
  have dist: "distinct (map fst ?C)"
    using distinct_combine[of "[]" "items payload"] by (simp add: dict_keys_def)
  have "find (\<lambda>(pid, qty). \<not> (\<exists>p\<in>set (products (cur ?s1)). p_id p = pid \<and> qty \<le> p_stock p)) ?C
      = Some (pid, requested (items payload) pid)"
    using first_insufficient[of ?s1 "items payload"] pk known fnd by (simp only: cur1) simp
  from reserve_stock_fail[OF _ dist this] pk
  have fail: "fst (reserve_stock ?s1 ?C) = Inl (HTTPException 400 (Insufficient_stock pid))"
    by (simp only: cur1)
  have co: "create_order payload user now ?s0 =
      (Inl (HTTPException 400 (Insufficient_stock pid)), snd (reserve_stock ?s1 ?C))"
    by (rule create_order_raise[OF ne sub fail])
  have "rolled_back d (cur (snd (reserve_stock ?s1 ?C))) = d"
    using reserve_stock_frame[of ?s1 ?C] by (intro rolled_back_same) (simp_all only: cur1)
  with co show ?thesis
    by (simp add: post_orders_def get_session_def Let_def)
qed

lemma reserve_stock_calls:
  "distinct (map p_id (products (cur s))) \<Longrightarrow> distinct (map fst its) \<Longrightarrow>
   calls (snd (reserve_stock s its)) =
     calls s @
     map (\<lambda>(pid, qty). Execute (UPDATE_stock pid qty))
       (takeWhile (\<lambda>(pid, qty). \<exists>p\<in>set (products (cur s)). p_id p = pid \<and> qty \<le> p_stock p) its @
        take 1 (dropWhile (\<lambda>(pid, qty). \<exists>p\<in>set (products (cur s)). p_id p = pid \<and> qty \<le> p_stock p) its))"
proof (induction its arbitrary: s)
  case Nil
  then show ?case by simp
next
  case (Cons x its)
  obtain pid0 qty0 where x: "x = (pid0, qty0)" by (cases x)
  let ?ps = "products (cur s)"
  let ?s' = "execute (s\<lparr>cur := (cur s)\<lparr>products := fst (update_stock ?ps pid0 qty0)\<rparr>\<rparr>) (UPDATE_stock pid0 qty0)"
  let ?ok = "\<lambda>t. \<lambda>(pid, qty). \<exists>p\<in>set (products (cur t)). p_id p = pid \<and> qty \<le> p_stock p"
  show ?case
  proof (cases "\<exists>p\<in>set ?ps. p_id p = pid0 \<and> qty0 \<le> p_stock p")
    case False
    then have "snd (update_stock ?ps pid0 qty0) \<noteq> 1"
      using update_stock_rowcount[OF Cons.prems(1), of pid0 qty0] by blast
    with False show ?thesis by (auto simp: x Let_def execute_def)
  next
    case True
    then have one: "snd (update_stock ?ps pid0 qty0) = 1"
      using update_stock_rowcount[OF Cons.prems(1), of pid0 qty0] by blast
    have d1: "distinct (map p_id (products (cur ?s')))"
      using Cons.prems(1) by (simp add: execute_def update_stock_frame)
    have d2: "distinct (map fst its)" using Cons.prems(2) by simp
    have same: "\<And>y. y \<in> set its \<Longrightarrow> ?ok ?s' y = ?ok s y"
    proof -
      fix y assume m: "y \<in> set its"
      obtain a b where y: "y = (a, b)" by (cases y)
      from m Cons.prems(2) have "a \<noteq> pid0" by (force simp: x y)
      then show "?ok ?s' y = ?ok s y"
        by (auto simp: y execute_def update_stock_def)
    qed
    have tw: "takeWhile (?ok ?s') its = takeWhile (?ok s) its"
      by (rule takeWhile_cong[OF refl]) (rule same)
    have dw: "dropWhile (?ok ?s') its = dropWhile (?ok s) its"
      by (rule dropWhile_cong[OF refl]) (rule same)
    have c': "calls ?s' = calls s @ [Execute (UPDATE_stock pid0 qty0)]" by (simp add: execute_def)
    show ?thesis
      using Cons.IH[OF d1 d2] one True
      by (simp add: x Let_def tw dw c' del: take_Suc_Cons)
  qed
qed

lemma find_take_dropWhile:
  "find P xs = Some x \<Longrightarrow> take 1 (dropWhile (\<lambda>y. \<not> P y) xs) = [x]"
  by (induction xs) (auto split: if_splits)

lemma sufficient_prefix:
  assumes pk: "distinct (map p_id (products (cur s)))"
    and known: "\<forall>it\<in>set its. known (cur s) (in_product_id it)"
  shows "takeWhile (\<lambda>(pid, qty). \<exists>p\<in>set (products (cur s)). p_id p = pid \<and> qty \<le> p_stock p)
           (combine its []) =
         map (\<lambda>pid. (pid, requested its pid))
           (takeWhile (\<lambda>pid. \<not> stock_of (cur s) pid < requested its pid)
              (first_seen (map in_product_id its)))"
    and "dropWhile (\<lambda>(pid, qty). \<exists>p\<in>set (products (cur s)). p_id p = pid \<and> qty \<le> p_stock p)
           (combine its []) =
         map (\<lambda>pid. (pid, requested its pid))
           (dropWhile (\<lambda>pid. \<not> stock_of (cur s) pid < requested its pid)
              (first_seen (map in_product_id its)))"
proof -
  let ?ids = "first_seen (map in_product_id its)"
  let ?Q = "\<lambda>pid. \<exists>p\<in>set (products (cur s)). p_id p = pid \<and> requested its pid \<le> p_stock p"
  let ?R = "\<lambda>pid. \<not> stock_of (cur s) pid < requested its pid"
  have eq: "\<And>pid. pid \<in> set ?ids \<Longrightarrow> ?Q pid = ?R pid"
  proof -
    fix pid assume "pid \<in> set ?ids"
    then have "known (cur s) pid" using known by (auto simp: set_first_seen)
    from stock_of_row[OF pk this, of "requested its pid"] show "?Q pid = ?R pid" by blast
  qed
  have tw: "takeWhile ?Q ?ids = takeWhile ?R ?ids"
    by (rule takeWhile_cong[OF refl]) (rule eq)
  have dw: "dropWhile ?Q ?ids = dropWhile ?R ?ids"
    by (rule dropWhile_cong[OF refl]) (rule eq)
  show "takeWhile (\<lambda>(pid, qty). \<exists>p\<in>set (products (cur s)). p_id p = pid \<and> qty \<le> p_stock p)
           (combine its []) = map (\<lambda>pid. (pid, requested its pid)) (takeWhile ?R ?ids)"
    by (simp add: combine_requested takeWhile_map comp_def tw)
  show "dropWhile (\<lambda>(pid, qty). \<exists>p\<in>set (products (cur s)). p_id p = pid \<and> qty \<le> p_stock p)
           (combine its []) = map (\<lambda>pid. (pid, requested its pid)) (dropWhile ?R ?ids)"
    by (simp add: combine_requested dropWhile_map comp_def dw)
qed

lemma post_orders_insufficient_calls:
  assumes pk: "distinct (map p_id (products d))"
    and known: "\<forall>it\<in>set (items payload). known d (in_product_id it)"
    and fnd: "find (\<lambda>pid. stock_of d pid < requested (items payload) pid)
                (first_seen (map in_product_id (items payload))) = Some pid"
  shows "snd (snd (post_orders payload user now d)) =
     [Execute CREATE_SCHEMA, Execute (SELECT_prices (first_seen (map in_product_id (items payload))))] @
     map (\<lambda>p. Execute (UPDATE_stock p (requested (items payload) p)))
       (takeWhile (\<lambda>p. \<not> stock_of d p < requested (items payload) p)
          (first_seen (map in_product_id (items payload))) @ [pid]) @
     [Rollback]"
proof -
  let ?s0 = "execute \<lparr>cur = d, calls = []\<rparr> CREATE_SCHEMA"
  let ?C = "combine (items payload) []"
  let ?ids = "first_seen (map in_product_id (items payload))"
  let ?s1 = "execute ?s0 (SELECT_prices (dict_keys ?C))"
  from fnd have ne: "items payload \<noteq> []" by auto
  have sub: "set (map in_product_id (items payload)) \<subseteq> set (map p_id (products (cur ?s0)))"
    using known by (auto simp: known_def execute_def)
  have cur1: "cur ?s1 = d" by (simp add: execute_def)
  have dist: "distinct (map fst ?C)"
    using distinct_combine[of "[]" "items payload"] by (simp add: dict_keys_def)
  have "find (\<lambda>(pid, qty). \<not> (\<exists>p\<in>set (products (cur ?s1)). p_id p = pid \<and> qty \<le> p_stock p)) ?C
      = Some (pid, requested (items payload) pid)"
    using first_insufficient[of ?s1 "items payload"] pk known fnd by (simp only: cur1) simp
  from reserve_stock_fail[OF _ dist this] pk
  have fail: "fst (reserve_stock ?s1 ?C) = Inl (HTTPException 400 (Insufficient_stock pid))"
    by (simp only: cur1)
  have co: "create_order payload user now ?s0 =
      (Inl (HTTPException 400 (Insufficient_stock pid)), snd (reserve_stock ?s1 ?C))"
    by (rule create_order_raise[OF ne sub fail])
  have pk1: "distinct (map p_id (products (cur ?s1)))" using pk by (simp only: cur1)
  have known1: "\<forall>it\<in>set (items payload). known (cur ?s1) (in_product_id it)"
    using known by (simp only: cur1)
  have one: "take 1 (dropWhile (\<lambda>p. \<not> stock_of d p < requested (items payload) p) ?ids) = [pid]"
    using fnd by (rule find_take_dropWhile)
  have "calls (snd (reserve_stock ?s1 ?C)) =
     calls ?s1 @ map (\<lambda>(pid, qty). Execute (UPDATE_stock pid qty))
       (map (\<lambda>p. (p, requested (items payload) p))
          (takeWhile (\<lambda>p. \<not> stock_of d p < requested (items payload) p) ?ids @ [pid]))"
    using reserve_stock_calls[OF pk1 dist, unfolded cur1] one
    by (simp only: sufficient_prefix[OF pk1 known1, unfolded cur1] take_map map_append)
  then have "calls (snd (reserve_stock ?s1 ?C)) =
     [Execute CREATE_SCHEMA, Execute (SELECT_prices ?ids)] @
     map (\<lambda>p. Execute (UPDATE_stock p (requested (items payload) p)))
       (takeWhile (\<lambda>p. \<not> stock_of d p < requested (items payload) p) ?ids @ [pid])"
    by (simp add: execute_def combine_keys_nil comp_def)
  with co show ?thesis
    by (simp add: post_orders_def get_session_def Let_def)
qed

lemma find_Some_D: "find P xs = Some x \<Longrightarrow> P x \<and> x \<in> set xs"
  by (induction xs) (auto split: if_splits)

lemma find_ex: "\<exists>x\<in>set xs. P x \<Longrightarrow> \<exists>y. find P xs = Some y"
  by (induction xs) auto

lemma shop_facts:
  "distinct (map p_id (products shop))"
  "known shop 1" "known shop 2"
  "stock_of shop 1 = 10" "stock_of shop 2 = 3"
  "price_of shop 1 = 250" "price_of shop 2 = 400"
  by (simp_all add: shop_def pen_def ink_def known_def stock_of_def price_of_def get_product_row_def)

text \<open>
  C2, as stated, fails: a request that also names a product absent from the catalog is
  rejected at the price lookup, before any reservation, with \<open>unknown product(s)\<close> and not
  with \<open>insufficient stock\<close>, although it asks 11 of a product whose stock is 10.
\<close>

theorem C2_unknown_product_takes_precedence:
  "stock_of shop 1 < requested [line 1 11, line 9 1] 1 \<and>
   fst (post_orders \<lparr>items = [line 1 11, line 9 1]\<rparr> ''ann'' 0 shop) =
     Inl (HTTPException 400 (Unknown_products [9]))"
proof -
  have "\<not> set (map in_product_id (items \<lparr>items = [line 1 11, line 9 1]\<rparr>)) \<subseteq> set (map p_id (products shop))"
    by (simp add: shop_def pen_def ink_def line_def)
  from post_orders_unknown[OF this, of "''ann''" 0]
  have "fst (post_orders \<lparr>items = [line 1 11, line 9 1]\<rparr> ''ann'' 0 shop) =
     Inl (HTTPException 400 (Unknown_products
       (sorted_list_of_set (set (map in_product_id (items \<lparr>items = [line 1 11, line 9 1]\<rparr>)) -
                            set (map p_id (products shop))))))"
    by simp
  moreover have "set (map in_product_id (items \<lparr>items = [line 1 11, line 9 1]\<rparr>)) -
       set (map p_id (products shop)) = {9}"
    by (auto simp: shop_def pen_def ink_def line_def)
  ultimately show ?thesis
    by (simp add: shop_facts requested_def line_def)
qed

text \<open>
  C2, amended: when every requested product exists and the merged quantity of some
  product exceeds its stock, \<open>POST /orders\<close> fails with status 400, \<open>insufficient stock\<close>,
  naming a requested product whose merged quantity exceeds its stock, and the database
  after the request is the database before it: the decrements that the session had
  applied to earlier products are rolled back.
\<close>

theorem C2_insufficient_stock_rolls_back:
  assumes "distinct (map p_id (products d))"
    and "\<forall>it\<in>set (items payload). known d (in_product_id it)"
    and "\<exists>it\<in>set (items payload).
           stock_of d (in_product_id it) < requested (items payload) (in_product_id it)"
  shows "\<exists>pid\<in>set (map in_product_id (items payload)).
           stock_of d pid < requested (items payload) pid \<and>
           fst (post_orders payload user now d) = Inl (HTTPException 400 (Insufficient_stock pid)) \<and>
           fst (snd (post_orders payload user now d)) = d"
proof -
  let ?ids = "first_seen (map in_product_id (items payload))"
  from assms(3) have "\<exists>pid\<in>set ?ids. stock_of d pid < requested (items payload) pid"
    by (auto simp: set_first_seen)
  from find_ex[OF this] obtain pid where
    f: "find (\<lambda>pid. stock_of d pid < requested (items payload) pid) ?ids = Some pid" by blast
  from find_Some_D[OF f] have "stock_of d pid < requested (items payload) pid"
    and "pid \<in> set (map in_product_id (items payload))" by (simp_all add: set_first_seen)
  with post_orders_insufficient[OF assms(1,2) f, of user now] show ?thesis by blast
qed

theorem C2_insufficient_stock_rolls_back_witness:
  "fst (post_orders \<lparr>items = [line 1 2, line 2 4]\<rparr> ''ann'' 0 shop) =
     Inl (HTTPException 400 (Insufficient_stock 2)) \<and>
   fst (snd (post_orders \<lparr>items = [line 1 2, line 2 4]\<rparr> ''ann'' 0 shop)) = shop \<and>
   snd (snd (post_orders \<lparr>items = [line 1 2, line 2 4]\<rparr> ''ann'' 0 shop)) =
     [Execute CREATE_SCHEMA, Execute (SELECT_prices [1, 2]), Execute (UPDATE_stock 1 2),
      Execute (UPDATE_stock 2 4), Rollback]"
proof -
  let ?p = "\<lparr>items = [line 1 2, line 2 4]\<rparr>"
  have h1: "distinct (map p_id (products shop))" by (rule shop_facts)
  have h2: "\<forall>it\<in>set (items ?p). known shop (in_product_id it)"
    by (simp add: line_def shop_facts)
  have h3: "\<exists>it\<in>set (items ?p). stock_of shop (in_product_id it) < requested (items ?p) (in_product_id it)"
    by (simp add: line_def shop_facts requested_def)
  from C2_insufficient_stock_rolls_back[OF h1 h2 h3, of "''ann''" 0] obtain pid where
    p: "pid \<in> set (map in_product_id (items ?p))" "stock_of shop pid < requested (items ?p) pid"
      "fst (post_orders ?p ''ann'' 0 shop) = Inl (HTTPException 400 (Insufficient_stock pid))"
      "fst (snd (post_orders ?p ''ann'' 0 shop)) = shop"
    by blast
  from p(1) have "pid = 1 \<or> pid = 2" by (auto simp: line_def)
  with p(2) have "pid = 2" by (auto simp: line_def shop_facts requested_def)
  moreover have "snd (snd (post_orders ?p ''ann'' 0 shop)) =
     [Execute CREATE_SCHEMA, Execute (SELECT_prices [1, 2]), Execute (UPDATE_stock 1 2),
      Execute (UPDATE_stock 2 4), Rollback]"
    by code_simp
  ultimately show ?thesis using p(3,4) by simp
qed

section \<open>The successful order\<close>

lemma filter_rows_old:
  "list_all (\<lambda>i. oi_order_id i \<le> n) xs \<Longrightarrow>
   filter (\<lambda>x. fst x = n + 1) (map (\<lambda>i. (oi_order_id i, item_out i)) xs) = []"
  by (induction xs) auto

lemma post_orders_ok:
  fixes payload user now d
  defines "ids \<equiv> first_seen (map in_product_id (items payload))"
  defines "out \<equiv>
     \<lparr>oo_id = orders_seq d + 1, oo_user_id = user,
      oo_total_cents = sum_list (map (\<lambda>pid. requested (items payload) pid * price_of d pid) ids),
      oo_items = map (\<lambda>pid. \<lparr>out_product_id = pid, out_qty = requested (items payload) pid,
                                out_price_cents = price_of d pid\<rparr>) ids\<rparr>"
  assumes ne: "items payload \<noteq> []"
    and pk: "distinct (map p_id (products d))"
    and fresh: "list_all (\<lambda>r. o_id r \<le> orders_seq d) (orders d)"
    and fk: "list_all (\<lambda>i. oi_order_id i \<le> orders_seq d) (order_items d)"
    and suff: "\<forall>it\<in>set (items payload). known d (in_product_id it) \<and>
                 requested (items payload) (in_product_id it) \<le> stock_of d (in_product_id it)"
    and ulen: "length user \<le> 100"
    and tfit: "int4 (sum_list (map (\<lambda>pid. requested (items payload) pid * price_of d pid) ids))"
    and ifit: "\<forall>pid\<in>set ids. int4 (requested (items payload) pid) \<and> int4 (price_of d pid)"
  shows "fst (post_orders payload user now d) = Inr out"
    and "products (fst (snd (post_orders payload user now d))) =
           map (\<lambda>p. p\<lparr>p_stock := p_stock p - requested (items payload) (p_id p)\<rparr>) (products d)"
    and "orders (fst (snd (post_orders payload user now d))) =
           orders d @ [\<lparr>o_id = orders_seq d + 1, o_user_id = user, o_created_at = now,
                         o_total_cents = oo_total_cents out\<rparr>]"
    and "map (\<lambda>i. (oi_order_id i, item_out i)) (order_items (fst (snd (post_orders payload user now d)))) =
           map (\<lambda>i. (oi_order_id i, item_out i)) (order_items d) @
           map (\<lambda>i. (orders_seq d + 1, i)) (oo_items out)"
    and "snd (snd (post_orders payload user now d)) =
           [Execute CREATE_SCHEMA, Execute (SELECT_prices ids)] @
           map (\<lambda>pid. Execute (UPDATE_stock pid (requested (items payload) pid))) ids @
           [Flush, Flush, Refresh (orders_seq d + 1), Load_items (orders_seq d + 1), Commit]"
proof -
  let ?s0 = "execute \<lparr>cur = d, calls = []\<rparr> CREATE_SCHEMA"
  let ?C = "combine (items payload) []"
  let ?oid = "orders_seq d + 1"
  have cur0: "cur ?s0 = d" by (simp add: execute_def)
  have C: "?C = map (\<lambda>pid. (pid, requested (items payload) pid)) ids"
    unfolding ids_def by (rule combine_requested)
  have keys: "dict_keys ?C = ids" unfolding ids_def by (rule combine_keys_nil)
  have get: "\<And>k. dict_get ?C k 0 = requested (items payload) k"
    using combine_get[of "items payload" "[]"] by (simp add: dict_get_def)
  have fresh': "list_all (\<lambda>r. o_id r \<noteq> orders_seq (cur ?s0) + 1) (orders (cur ?s0))"
    using fresh by (simp add: cur0 list_all_iff) fastforce
  have suff': "\<forall>(pid, qty)\<in>set ?C. \<exists>p\<in>set (products (cur ?s0)). p_id p = pid \<and> qty \<le> p_stock p"
  proof (clarify)
    fix pid qty assume "(pid, qty) \<in> set ?C"
    then have m: "pid \<in> set (map in_product_id (items payload))" and q: "qty = requested (items payload) pid"
      by (simp_all only: combine_entry)
    from m suff have k: "known d pid" and le: "requested (items payload) pid \<le> stock_of d pid" by auto
    from stock_of_row[OF pk k, of qty] le q
    show "\<exists>p\<in>set (products (cur ?s0)). p_id p = pid \<and> qty \<le> p_stock p"
      by (simp only: cur0) auto
  qed
  have pk': "distinct (map p_id (products (cur ?s0)))" using pk by (simp only: cur0)
  have tot: "sum_list (map (\<lambda>(pid, qty). price_of d pid * qty) ?C) = oo_total_cents out"
    by (simp add: C out_def comp_def mult.commute)
  have tfit': "int4 (sum_list (map (\<lambda>(pid, qty). price_of (cur ?s0) pid * qty) ?C))"
    using tfit by (simp only: cur0 tot) (simp add: out_def)
  have ifit': "list_all (\<lambda>(pid, qty). int4 qty \<and> int4 (price_of (cur ?s0) pid)) ?C"
    using ifit by (simp add: cur0 C list_all_iff)
  let ?new = "map (\<lambda>(pid, qty). \<lparr>oi_id = 0, oi_order_id = ?oid, oi_product_id = pid,
                                   oi_qty = qty, oi_price_cents = price_of d pid\<rparr>) ?C"
  let ?d3 = "d\<lparr>products := map (\<lambda>p. p\<lparr>p_stock := p_stock p - dict_get ?C (p_id p) 0\<rparr>) (products d),
               orders_seq := ?oid,
               orders := orders d @ [\<lparr>o_id = ?oid, o_user_id = user, o_created_at = now,
                  o_total_cents = sum_list (map (\<lambda>(pid, qty). price_of d pid * qty) ?C)\<rparr>]\<rparr>"
  from create_order_ok[OF ne pk' fresh' suff' ulen tfit' ifit', of now, unfolded cur0]
  obtain d4 where ii: "insert_items ?d3 ?new = Inr d4"
    and co: "create_order payload user now ?s0 =
       (Inr \<lparr>oo_id = ?oid, oo_user_id = user,
             oo_total_cents = sum_list (map (\<lambda>(pid, qty). price_of d pid * qty) ?C),
             oo_items = map item_out (items_of d4 ?oid)\<rparr>,
        ?s0\<lparr>cur := d4,
          calls := calls ?s0 @ [Execute (SELECT_prices (dict_keys ?C))] @
                   map (\<lambda>(pid, qty). Execute (UPDATE_stock pid qty)) ?C @
                   [Flush, Flush, Refresh ?oid, Load_items ?oid]\<rparr>)"
    by blast
  note fr = insert_items_frame[OF ii]
  have rows: "map (\<lambda>i. (oi_order_id i, item_out i)) (order_items d4) =
      map (\<lambda>i. (oi_order_id i, item_out i)) (order_items d) @ map (\<lambda>i. (?oid, i)) (oo_items out)"
    by (simp only: insert_items_rows[OF ii]) (simp add: C out_def comp_def item_out_def)
  have its: "map item_out (items_of d4 ?oid) = oo_items out"
    by (simp only: items_of_rows rows filter_append filter_rows_old[OF fk]) (simp add: comp_def)
  have po: "post_orders payload user now d =
      (fst (create_order payload user now ?s0), cur (snd (create_order payload user now ?s0)),
       calls (snd (create_order payload user now ?s0)) @ [Commit])"
    by (simp add: post_orders_def get_session_def Let_def co)
  show "fst (post_orders payload user now d) = Inr out"
    by (simp add: po) (simp add: co its, simp add: tot, simp add: out_def)
  show "products (fst (snd (post_orders payload user now d))) =
           map (\<lambda>p. p\<lparr>p_stock := p_stock p - requested (items payload) (p_id p)\<rparr>) (products d)"
    by (simp add: po) (simp add: co fr get)
  show "orders (fst (snd (post_orders payload user now d))) =
           orders d @ [\<lparr>o_id = orders_seq d + 1, o_user_id = user, o_created_at = now,
                         o_total_cents = oo_total_cents out\<rparr>]"
    by (simp add: po) (simp add: co fr tot)
  show "map (\<lambda>i. (oi_order_id i, item_out i)) (order_items (fst (snd (post_orders payload user now d)))) =
           map (\<lambda>i. (oi_order_id i, item_out i)) (order_items d) @
           map (\<lambda>i. (orders_seq d + 1, i)) (oo_items out)"
    by (simp add: po) (simp add: co rows)
  show "snd (snd (post_orders payload user now d)) =
           [Execute CREATE_SCHEMA, Execute (SELECT_prices ids)] @
           map (\<lambda>pid. Execute (UPDATE_stock pid (requested (items payload) pid))) ids @
           [Flush, Flush, Refresh (orders_seq d + 1), Load_items (orders_seq d + 1), Commit]"
    by (simp add: po) (simp add: co keys, simp add: execute_def C comp_def)
qed

lemma stock_of_decremented:
  assumes "products d' = map (\<lambda>p. p\<lparr>p_stock := p_stock p - f (p_id p)\<rparr>) (products d)"
  shows "stock_of d' pid = (if known d pid then stock_of d pid - f pid else 0)"
proof -
  have fm: "find (\<lambda>p. p_id p = pid) (map (\<lambda>p. p\<lparr>p_stock := p_stock p - f (p_id p)\<rparr>) ps) =
        map_option (\<lambda>p. p\<lparr>p_stock := p_stock p - f (p_id p)\<rparr>) (find (\<lambda>p. p_id p = pid) ps)" for ps
    by (induction ps) auto
  show ?thesis
  proof (cases "find (\<lambda>p. p_id p = pid) (products d)")
    case None
    then have "\<not> known d pid" by (auto simp: known_def find_None_iff)
    with None show ?thesis
      by (simp add: stock_of_def get_product_row_def assms fm)
  next
    case (Some p)
    from find_Some_D[OF Some] have "p_id p = pid" "known d pid" by (auto simp: known_def)
    with Some show ?thesis
      by (simp add: stock_of_def get_product_row_def assms fm)
  qed
qed

lemma line_sel: "in_product_id (line pid qty) = pid" "in_qty (line pid qty) = qty"
  by (simp_all add: line_def)

text \<open>A body that passes the validation of \<open>OrderCreate\<close> has at least one item.\<close>

lemma OrderCreate_valid_nonempty: "OrderCreate_valid payload \<Longrightarrow> items payload \<noteq> []"
  by (auto simp: OrderCreate_valid_def)

text \<open>In such a body every quantity is positive, so every merged quantity is.\<close>

lemma requested_nonneg: "list_all OrderItemIn_valid its \<Longrightarrow> 0 \<le> requested its pid"
  by (induction its) (auto simp: requested_def OrderItemIn_valid_def)

lemma requested_pos:
  "list_all OrderItemIn_valid its \<Longrightarrow> pid \<in> set (map in_product_id its) \<Longrightarrow>
   1 \<le> requested its pid"
proof (induction its)
  case Nil
  then show ?case by simp
next
  case (Cons it its)
  from Cons.prems(1) have v: "1 \<le> in_qty it" by (simp add: OrderItemIn_valid_def)
  from Cons.prems(1) have vs: "list_all OrderItemIn_valid its" by simp
  have split: "requested (it # its) pid =
      (if in_product_id it = pid then in_qty it else 0) + requested its pid"
    by (simp add: requested_def)
  show ?case
  proof (cases "in_product_id it = pid")
    case True
    with v requested_nonneg[OF vs, of pid] show ?thesis by (simp add: split)
  next
    case False
    with Cons.prems(2) have "pid \<in> set (map in_product_id its)" by auto
    from Cons.IH[OF vs this] False show ?thesis by (simp add: split)
  qed
qed

text \<open>The price and the stock of a product of the catalog fit their columns.\<close>

lemma known_fits:
  assumes "db_ok d" and "known d pid"
  shows "int4 (price_of d pid) \<and> int4 (stock_of d pid)"
proof -
  from assms(2) have "pid \<in> set (map p_id (products d))" by (simp add: known_def)
  from known_row[OF this] obtain p where
    p: "get_product_row (products d) pid = Some p" "p \<in> set (products d)" by blast
  from assms(1) p(2) have "int4 (p_price_cents p) \<and> int4 (p_stock p)"
    by (auto simp: db_ok_def list_all_iff)
  with p(1) show ?thesis by (simp add: price_of_def stock_of_def)
qed

lemma reachable_vault: "reachable vault"
proof -
  let ?gold = "\<lparr>pin_name = ''gold'', pin_price_cents = 2000000000, pin_stock = 10\<rparr>"
  have "catalog_step (Post_product ?gold) empty_db = vault"
    by (simp add: catalog_get_session_def create_product_def called_def ProductIn_valid_def
          empty_db_def vault_def int4_def Let_def)
  moreover have "reachable (catalog_step (Post_product ?gold) empty_db)"
    by (intro reachable.catalog reachable.init)
  ultimately show ?thesis by simp
qed

text \<open>
  C1, as stated, fails: \<open>orders.total_cents\<close> is an \<open>Integer\<close> column of four bytes and
  \<open>orders.user_id\<close> a \<open>String(100)\<close>. The catalog \<open>vault\<close>, reached by one valid
  \<open>POST /products\<close>, holds ten units of a product that costs 2000000000. A request for
  two of them names an existing product within its stock, yet the total 4000000000
  does not fit the column: the second flush raises \<open>DataError\<close>, the request is answered
  with status 500 and the transaction is rolled back, so that no order exists and the
  stock is what it was; only the sequence of \<open>orders\<close> has advanced. Likewise a request
  for one pen under a user name of 101 characters fails at the first flush.
\<close>

theorem C1_total_exceeds_column:
  "reachable vault \<and> OrderCreate_valid \<lparr>items = [line 1 2]\<rparr> \<and>
   known vault 1 \<and> requested [line 1 2] 1 \<le> stock_of vault 1 \<and>
   post_orders \<lparr>items = [line 1 2]\<rparr> ''ann'' 0 vault =
     (Inl DataError, vault\<lparr>orders_seq := 1\<rparr>,
      [Execute CREATE_SCHEMA, Execute (SELECT_prices [1]), Execute (UPDATE_stock 1 2),
       Flush, Flush, Rollback]) \<and>
   route_post_orders Raises_inside_dependencies (Some ''ann'') \<lparr>items = [line 1 2]\<rparr> 0 vault =
     post_orders \<lparr>items = [line 1 2]\<rparr> ''ann'' 0 vault \<and>
   length long_name = 101 \<and>
   fst (post_orders \<lparr>items = [line 1 1]\<rparr> long_name 0 shop) = Inl DataError \<and>
   products (fst (snd (post_orders \<lparr>items = [line 1 1]\<rparr> long_name 0 shop))) = products shop \<and>
   orders (fst (snd (post_orders \<lparr>items = [line 1 1]\<rparr> long_name 0 shop))) = []"
proof -
  have v: "OrderCreate_valid \<lparr>items = [line 1 2]\<rparr>"
    by (simp add: OrderCreate_valid_def OrderItemIn_valid_def line_sel)
  have k: "known vault 1" "requested [line 1 2] 1 \<le> stock_of vault 1"
    by (simp_all add: known_def stock_of_def get_product_row_def vault_def requested_def line_sel)
  have p: "post_orders \<lparr>items = [line 1 2]\<rparr> ''ann'' 0 vault =
     (Inl DataError, vault\<lparr>orders_seq := 1\<rparr>,
      [Execute CREATE_SCHEMA, Execute (SELECT_prices [1]), Execute (UPDATE_stock 1 2),
       Flush, Flush, Rollback])"
    by code_simp
  have r: "route_post_orders Raises_inside_dependencies (Some ''ann'') \<lparr>items = [line 1 2]\<rparr> 0 vault =
     post_orders \<lparr>items = [line 1 2]\<rparr> ''ann'' 0 vault"
    by (rule route_post_orders_valid[OF _ v]) (simp add: require_user_def)
  have l: "length long_name = 101" by (simp add: long_name_def)
  have q: "post_orders \<lparr>items = [line 1 1]\<rparr> long_name 0 shop =
     (Inl DataError, shop,
      [Execute CREATE_SCHEMA, Execute (SELECT_prices [1]), Execute (UPDATE_stock 1 1),
       Flush, Rollback])"
    by code_simp
  have q': "fst (post_orders \<lparr>items = [line 1 1]\<rparr> long_name 0 shop) = Inl DataError"
    "products (fst (snd (post_orders \<lparr>items = [line 1 1]\<rparr> long_name 0 shop))) = products shop"
    "orders (fst (snd (post_orders \<lparr>items = [line 1 1]\<rparr> long_name 0 shop))) = []"
    by (simp_all only: q fst_conv snd_conv) (simp add: shop_def)
  from reachable_vault v k p r l q' show ?thesis by blast
qed

text \<open>
  C1, amended: for a request that carries an \<open>X-User\<close> header of at most 100 characters
  and a body that passes the validation of \<open>OrderCreate\<close> (a non-empty list of items
  with positive quantities), whose products all exist, whose merged quantities are all
  within stock and whose total fits the \<open>Integer\<close> column \<open>total_cents\<close>, \<open>POST /orders\<close>
  returns an order; the stock of every product has dropped by exactly the merged
  quantity requested of it (by nothing, for a product the request does not name); the
  order's \<open>total_cents\<close> is the sum, over the distinct products, of merged quantity
  times the catalog price at the time of the call, and it equals the sum of
  \<open>qty * price_cents\<close> over the returned items. The database is one that satisfies
  \<open>db_ok\<close>, as every reachable one does.
\<close>

theorem C1_create_order_succeeds:
  assumes "OrderCreate_valid payload"
    and "user \<noteq> []" and "length user \<le> 100"
    and "db_ok d"
    and "\<forall>it\<in>set (items payload). known d (in_product_id it) \<and>
           requested (items payload) (in_product_id it) \<le> stock_of d (in_product_id it)"
    and "int4 (sum_list (map (\<lambda>pid. requested (items payload) pid * price_of d pid)
                           (first_seen (map in_product_id (items payload)))))"
  shows "\<exists>out d' cs.
     route_post_orders fw (Some user) payload now d = (Inr out, d', cs) \<and>
     post_orders payload user now d = (Inr out, d', cs) \<and>
     products d' =
       map (\<lambda>p. p\<lparr>p_stock := p_stock p - requested (items payload) (p_id p)\<rparr>) (products d) \<and>
     (\<forall>pid. known d pid \<longrightarrow> stock_of d' pid = stock_of d pid - requested (items payload) pid) \<and>
     oo_items out =
       map (\<lambda>pid. \<lparr>out_product_id = pid, out_qty = requested (items payload) pid,
                     out_price_cents = price_of d pid\<rparr>)
         (first_seen (map in_product_id (items payload))) \<and>
     oo_total_cents out =
       sum_list (map (\<lambda>pid. requested (items payload) pid * price_of d pid)
                   (first_seen (map in_product_id (items payload)))) \<and>
     oo_total_cents out = sum_list (map (\<lambda>i. out_qty i * out_price_cents i) (oo_items out))"
proof -
  let ?ids = "first_seen (map in_product_id (items payload))"
  let ?out = "\<lparr>oo_id = orders_seq d + 1, oo_user_id = user,
      oo_total_cents = sum_list (map (\<lambda>pid. requested (items payload) pid * price_of d pid) ?ids),
      oo_items = map (\<lambda>pid. \<lparr>out_product_id = pid, out_qty = requested (items payload) pid,
                                out_price_cents = price_of d pid\<rparr>) ?ids\<rparr>"
  let ?r = "post_orders payload user now d"
  from assms(4) have pk: "distinct (map p_id (products d))"
    and fresh: "list_all (\<lambda>r. o_id r \<le> orders_seq d) (orders d)"
    and fk: "list_all (\<lambda>i. oi_order_id i \<le> orders_seq d) (order_items d)"
    by (simp_all add: db_ok_def list_all_iff)
  from assms(1) have ne: "items payload \<noteq> []" by (rule OrderCreate_valid_nonempty)
  from assms(1) have vs: "list_all OrderItemIn_valid (items payload)"
    by (simp add: OrderCreate_valid_def)
  have ifit: "\<forall>pid\<in>set ?ids. int4 (requested (items payload) pid) \<and> int4 (price_of d pid)"
  proof
    fix pid assume "pid \<in> set ?ids"
    then have m: "pid \<in> set (map in_product_id (items payload))" by (simp only: set_first_seen)
    then obtain it where it: "it \<in> set (items payload)" "in_product_id it = pid" by auto
    with assms(5) have k: "known d pid"
      and le: "requested (items payload) pid \<le> stock_of d pid" by auto
    from known_fits[OF assms(4) k] have f: "int4 (price_of d pid)" "int4 (stock_of d pid)"
      by simp_all
    from requested_pos[OF vs m] le f(2) have "int4 (requested (items payload) pid)"
      by (simp add: int4_def)
    with f(1) show "int4 (requested (items payload) pid) \<and> int4 (price_of d pid)" by simp
  qed
  note ok = post_orders_ok[OF ne pk fresh fk assms(5) assms(3) assms(6) ifit, of now]
  have 1: "?r = (Inr ?out, fst (snd ?r), snd (snd ?r))"
    using ok(1) by (simp add: prod_eq_iff)
  have 0: "route_post_orders fw (Some user) payload now d = ?r"
    by (rule route_post_orders_valid[OF _ assms(1)]) (simp add: require_user_def assms(2))
  have 2: "\<forall>pid. known d pid \<longrightarrow>
      stock_of (fst (snd ?r)) pid = stock_of d pid - requested (items payload) pid"
  proof (intro allI impI)
    fix pid assume k: "known d pid"
    show "stock_of (fst (snd ?r)) pid = stock_of d pid - requested (items payload) pid"
      using stock_of_decremented[OF ok(2), of pid] k by simp
  qed
  have 3: "oo_total_cents ?out = sum_list (map (\<lambda>i. out_qty i * out_price_cents i) (oo_items ?out))"
    by (simp add: comp_def)
  have 4: "oo_items ?out = map (\<lambda>pid. \<lparr>out_product_id = pid, out_qty = requested (items payload) pid,
                                out_price_cents = price_of d pid\<rparr>) ?ids"
    and 5: "oo_total_cents ?out =
       sum_list (map (\<lambda>pid. requested (items payload) pid * price_of d pid) ?ids)"
    by simp_all
  from 0 1 have 6: "route_post_orders fw (Some user) payload now d =
      (Inr ?out, fst (snd ?r), snd (snd ?r))" by simp
  from 6 1 ok(2) 2 4 5 3 show ?thesis by blast
qed

theorem C1_create_order_succeeds_witness:
  "\<exists>out d' cs.
     route_post_orders Raises_inside_dependencies (Some ''ann'')
       \<lparr>items = [line 1 2, line 2 1, line 1 3]\<rparr> 7 shop = (Inr out, d', cs) \<and>
     map p_stock (products d') = [5, 2] \<and>
     stock_of d' 1 = 5 \<and> stock_of d' 2 = 2 \<and>
     oo_items out = [\<lparr>out_product_id = 1, out_qty = 5, out_price_cents = 250\<rparr>,
                     \<lparr>out_product_id = 2, out_qty = 1, out_price_cents = 400\<rparr>] \<and>
     oo_total_cents out = 1650"
proof -
  let ?p = "\<lparr>items = [line 1 2, line 2 1, line 1 3]\<rparr>"
  have r: "requested [line 1 2, line 2 1, line 1 3] 1 = 5"
    "requested [line 1 2, line 2 1, line 1 3] 2 = 1"
    by (simp_all add: requested_def line_def)
  have ids: "first_seen (map in_product_id (items ?p)) = [1, 2]" by (simp add: line_sel)
  have h1: "OrderCreate_valid ?p"
    by (simp add: OrderCreate_valid_def OrderItemIn_valid_def line_sel)
  have h2: "''ann'' \<noteq> []" "length ''ann'' \<le> 100" by simp_all
  have h3: "db_ok shop" by (simp add: db_ok_def shop_def pen_def ink_def int4_def)
  have h4: "\<forall>it\<in>set (items ?p). known shop (in_product_id it) \<and>
           requested (items ?p) (in_product_id it) \<le> stock_of shop (in_product_id it)"
    by (simp add: r shop_facts line_sel)
  have h5: "int4 (sum_list (map (\<lambda>pid. requested (items ?p) pid * price_of shop pid)
                           (first_seen (map in_product_id (items ?p)))))"
    by (simp only: ids) (simp add: r shop_facts int4_def)
  from C1_create_order_succeeds[OF h1 h2 h3 h4 h5, of Raises_inside_dependencies 7]
  obtain out d' cs where
    o: "route_post_orders Raises_inside_dependencies (Some ''ann'') ?p 7 shop = (Inr out, d', cs)"
      "products d' = map (\<lambda>p. p\<lparr>p_stock := p_stock p - requested (items ?p) (p_id p)\<rparr>) (products shop)"
      "\<forall>pid. known shop pid \<longrightarrow> stock_of d' pid = stock_of shop pid - requested (items ?p) pid"
      "oo_items out = map (\<lambda>pid. \<lparr>out_product_id = pid, out_qty = requested (items ?p) pid,
                     out_price_cents = price_of shop pid\<rparr>) (first_seen (map in_product_id (items ?p)))"
      "oo_total_cents out = sum_list (map (\<lambda>pid. requested (items ?p) pid * price_of shop pid)
                   (first_seen (map in_product_id (items ?p))))"
    by blast
  have "map p_stock (products d') = [5, 2]"
    using o(2) by (simp add: shop_def pen_def ink_def r)
  moreover have "stock_of d' 1 = 5" "stock_of d' 2 = 2"
    using o(3) by (simp_all add: shop_facts r)
  moreover have "oo_items out = [\<lparr>out_product_id = 1, out_qty = 5, out_price_cents = 250\<rparr>,
                     \<lparr>out_product_id = 2, out_qty = 1, out_price_cents = 400\<rparr>]"
    using o(4) by (simp add: line_sel r shop_facts)
  moreover have "oo_total_cents out = 1650"
    using o(5) by (simp add: line_sel r shop_facts)
  ultimately show ?thesis using o(1)
    by (intro exI[of _ out] exI[of _ d'] exI[of _ cs]) simp
qed

section \<open>Duplicates\<close>

lemma merged_empty: "merged its = [] \<longleftrightarrow> its = []"
proof
  assume "merged its = []"
  then have "dict_keys (combine its []) = []" by (simp add: merged_def dict_keys_def)
  then show "its = []" using combine_nonempty[of its] by blast
next
  assume "its = []" then show "merged its = []" by (simp add: merged_def)
qed

lemma create_order_merged:
  "create_order \<lparr>items = merged its\<rparr> user now s = create_order \<lparr>items = its\<rparr> user now s"
  by (simp add: create_order_def combine_merged merged_empty)

text \<open>
  C5: a request behaves as the request with one entry per product, in the order of first
  occurrence, whose quantity is the sum of the quantities the request gives that product:
  for every user, clock value and database the two requests return the same value,
  leave the same database and make the session send the same statements. In particular
  the entries (1, 2), (1, 3) behave as the single entry (1, 5).
\<close>

theorem C5_duplicates_merged:
  "post_orders \<lparr>items = merged its\<rparr> user now d = post_orders \<lparr>items = its\<rparr> user now d \<and>
   merged its = map (\<lambda>pid. line pid (requested its pid)) (first_seen (map in_product_id its)) \<and>
   merged [line 1 2, line 1 3] = [line 1 5] \<and>
   post_orders \<lparr>items = [line 1 2, line 1 3]\<rparr> user now d = post_orders \<lparr>items = [line 1 5]\<rparr> user now d"
proof -
  have a: "post_orders \<lparr>items = merged its\<rparr> user now d = post_orders \<lparr>items = its\<rparr> user now d" for its
    by (simp add: post_orders_def get_session_def create_order_merged)
  have b: "merged its = map (\<lambda>pid. line pid (requested its pid)) (first_seen (map in_product_id its))" for its
    by (simp add: merged_def combine_requested comp_def line_def)
  have c: "merged [line 1 2, line 1 3] = [line 1 5]"
    by (simp add: b line_sel requested_def)
  from a[of "[line 1 2, line 1 3]"] c a b show ?thesis by simp
qed

section \<open>What an order may write to the catalog\<close>

lemma reserve_stock_products:
  "fst (reserve_stock s its) = Inr u \<Longrightarrow>
   products (cur (snd (reserve_stock s its))) =
     foldl (\<lambda>ps (pid, qty). fst (update_stock ps pid qty)) (products (cur s)) its"
proof (induction its arbitrary: s)
  case Nil
  then show ?case by simp
next
  case (Cons x its)
  obtain pid qty where x: "x = (pid, qty)" by (cases x)
  let ?s' = "execute (s\<lparr>cur := (cur s)\<lparr>products := fst (update_stock (products (cur s)) pid qty)\<rparr>\<rparr>) (UPDATE_stock pid qty)"
  from Cons.prems have one: "snd (update_stock (products (cur s)) pid qty) = 1"
    by (simp add: x Let_def split: if_splits)
  with Cons.prems have "fst (reserve_stock ?s' its) = Inr u" by (simp add: x Let_def)
  from Cons.IH[OF this] one show ?case by (simp add: x Let_def execute_def)
qed

lemma create_order_Inr:
  assumes "create_order payload user now s = (Inr out, s')"
  shows "products (cur s') =
     foldl (\<lambda>ps (pid, qty). fst (update_stock ps pid qty)) (products (cur s))
       (combine (items payload) [])"
proof -
  let ?C = "combine (items payload) []"
  let ?fp = "fetch_prices s (dict_keys ?C)"
  obtain r s2 where rs: "reserve_stock (snd ?fp) ?C = (r, s2)"
    by (cases "reserve_stock (snd ?fp) ?C")
  from assms rs have r: "r = Inr ()"
    by (cases r) (auto simp: create_order_def Let_def case_prod_beta split: if_splits)
  from reserve_stock_products[of "snd ?fp" ?C "()"] rs r
  have p2: "products (cur s2) =
     foldl (\<lambda>ps (pid, qty). fst (update_stock ps pid qty)) (products (cur s)) ?C"
    by (simp add: fetch_prices_cur)
  from assms rs r have "products (cur s') = products (cur s2)"
    by (auto simp: create_order_def Let_def case_prod_beta called_def insert_order_def
          insert_items_frame split: if_splits sum.splits option.splits prod.splits)
  with p2 show ?thesis by simp
qed

lemma foldl_update_stock_frame:
  "map p_id (foldl (\<lambda>ps (pid, qty). fst (update_stock ps pid qty)) ps its) = map p_id ps \<and>
   map p_name (foldl (\<lambda>ps (pid, qty). fst (update_stock ps pid qty)) ps its) = map p_name ps \<and>
   map p_price_cents (foldl (\<lambda>ps (pid, qty). fst (update_stock ps pid qty)) ps its) =
     map p_price_cents ps"
  by (induction its arbitrary: ps) (auto simp: update_stock_frame)

lemma create_order_products_seq:
  "products_seq (cur (snd (create_order payload user now s))) = products_seq (cur s)"
proof -
  let ?C = "combine (items payload) []"
  let ?fp = "fetch_prices s (dict_keys ?C)"
  obtain r s2 where rs: "reserve_stock (snd ?fp) ?C = (r, s2)"
    by (cases "reserve_stock (snd ?fp) ?C")
  have "products_seq (cur s2) = products_seq (cur s)"
    using reserve_stock_frame[of "snd ?fp" ?C] rs by (simp add: fetch_prices_cur)
  then show ?thesis
    using rs
    by (auto simp: create_order_def Let_def case_prod_beta called_def insert_order_def
          insert_items_frame fetch_prices_cur split: if_splits sum.splits option.splits prod.splits)
qed

lemma post_orders_products:
  "map p_id (products (fst (snd (post_orders payload user now d)))) = map p_id (products d) \<and>
   map p_name (products (fst (snd (post_orders payload user now d)))) = map p_name (products d) \<and>
   map p_price_cents (products (fst (snd (post_orders payload user now d)))) =
     map p_price_cents (products d) \<and>
   products_seq (fst (snd (post_orders payload user now d))) = products_seq d \<and>
   (products (fst (snd (post_orders payload user now d))) = products d \<or>
    products (fst (snd (post_orders payload user now d))) =
      foldl (\<lambda>ps (pid, qty). fst (update_stock ps pid qty)) (products d)
        (combine (items payload) []))"
proof -
  let ?s0 = "execute \<lparr>cur = d, calls = []\<rparr> CREATE_SCHEMA"
  obtain r s' where co: "create_order payload user now ?s0 = (r, s')"
    by (cases "create_order payload user now ?s0")
  have seq: "products_seq (cur s') = products_seq d"
    using create_order_products_seq[of payload user now ?s0] co by (simp add: execute_def)
  show ?thesis
  proof (cases r)
    case (Inl e)
    with co seq show ?thesis
      by (simp add: post_orders_def get_session_def rolled_back_def)
  next
    case (Inr out)
    with co have "products (cur s') =
       foldl (\<lambda>ps (pid, qty). fst (update_stock ps pid qty)) (products d) (combine (items payload) [])"
      using create_order_Inr[of payload user now ?s0 out s'] by (simp add: execute_def)
    with co Inr seq show ?thesis
      by (simp add: post_orders_def get_session_def foldl_update_stock_frame)
  qed
qed

text \<open>
  C9: whatever the request and whatever its outcome, \<open>POST /orders\<close> leaves the \<open>id\<close>,
  \<open>name\<close> and \<open>price_cents\<close> of every row of \<open>products\<close> as they were, adds and
  removes no row and does not advance the table's sequence; the table it leaves is
  either the table it found or the result of the guarded update statements of the
  merged items, run in order.
\<close>

theorem C9_only_stock_written:
  "map p_id (products (fst (snd (post_orders payload user now d)))) = map p_id (products d) \<and>
   map p_name (products (fst (snd (post_orders payload user now d)))) = map p_name (products d) \<and>
   map p_price_cents (products (fst (snd (post_orders payload user now d)))) =
     map p_price_cents (products d) \<and>
   products_seq (fst (snd (post_orders payload user now d))) = products_seq d \<and>
   (products (fst (snd (post_orders payload user now d))) = products d \<or>
    products (fst (snd (post_orders payload user now d))) =
      foldl (\<lambda>ps (pid, qty). fst (update_stock ps pid qty)) (products d)
        (combine (items payload) []))"
  by (rule post_orders_products)

section \<open>Listing a user's orders\<close>

lemma foldl_called_cur: "cur (foldl (\<lambda>t r. called t (f r)) s xs) = cur s"
  by (induction xs arbitrary: s) (simp_all add: called_def)

lemma foldl_called_calls: "calls (foldl (\<lambda>t r. called t (f r)) s xs) = calls s @ map f xs"
  by (induction xs arbitrary: s) (simp_all add: called_def)

lemma strictly_descending:
  "sorted (map (\<lambda>r. - o_id r) rs) \<Longrightarrow> distinct (map o_id rs) \<Longrightarrow> sorted_wrt (>) (map o_id rs)"
  by (induction rs) (auto simp: less_le image_iff)

lemma get_orders_me_eq:
  "get_orders_me user d =
     (Inr (map (order_out d) (sort_key (\<lambda>r. - o_id r) (filter (\<lambda>r. o_user_id r = user) (orders d)))),
      d,
      [Execute CREATE_SCHEMA, Execute (SELECT_orders user)] @
      map (\<lambda>r. Load_items (o_id r))
        (sort_key (\<lambda>r. - o_id r) (filter (\<lambda>r. o_user_id r = user) (orders d))) @
      [Commit])"
  by (simp add: get_orders_me_def get_session_def list_my_orders_def Let_def
        foldl_called_cur foldl_called_calls execute_def)

text \<open>
  C6: \<open>GET /orders/me\<close> leaves the database as it was and returns one entry for each
  order of the user and none for any other order; the entries come in strictly
  descending order of \<open>id\<close>; each carries the \<open>total_cents\<close> stored in its order row
  and, as items, the rows of \<open>order_items\<close> that refer to the order.
\<close>

theorem C6_list_orders_for_user:
  assumes "distinct (map o_id (orders d))"
  shows "\<exists>outs cs.
     get_orders_me user d = (Inr outs, d, cs) \<and>
     (\<forall>out\<in>set outs. oo_user_id out = user) \<and>
     set (map oo_id outs) = {o_id r |r. r \<in> set (orders d) \<and> o_user_id r = user} \<and>
     length outs = length (filter (\<lambda>r. o_user_id r = user) (orders d)) \<and>
     sorted_wrt (>) (map oo_id outs) \<and>
     (\<forall>out\<in>set outs. \<exists>r\<in>set (orders d).
         o_user_id r = user \<and> oo_id out = o_id r \<and> oo_total_cents out = o_total_cents r \<and>
         oo_items out = map item_out (filter (\<lambda>i. oi_order_id i = o_id r) (order_items d)))"
proof -
  let ?os = "sort_key (\<lambda>r. - o_id r) (filter (\<lambda>r. o_user_id r = user) (orders d))"
  let ?outs = "map (order_out d) ?os"
  have set_os: "set ?os = {r \<in> set (orders d). o_user_id r = user}" by auto
  have ids: "map oo_id ?outs = map o_id ?os" by (simp add: order_out_def comp_def)
  have "distinct (map o_id (filter (\<lambda>r. o_user_id r = user) (orders d)))"
    using assms by (rule distinct_map_filter)
  then have "distinct (map o_id ?os)"
    by (metis distinct_map distinct_sort set_sort)
  moreover have "sorted (map (\<lambda>r. - o_id r) ?os)" by simp
  ultimately have desc: "sorted_wrt (>) (map oo_id ?outs)"
    unfolding ids by (intro strictly_descending)
  have 1: "\<forall>out\<in>set ?outs. oo_user_id out = user"
    by (auto simp: order_out_def)
  have 2: "set (map oo_id ?outs) = {o_id r |r. r \<in> set (orders d) \<and> o_user_id r = user}"
    unfolding ids by auto
  have 3: "length ?outs = length (filter (\<lambda>r. o_user_id r = user) (orders d))" by simp
  have 4: "\<forall>out\<in>set ?outs. \<exists>r\<in>set (orders d).
         o_user_id r = user \<and> oo_id out = o_id r \<and> oo_total_cents out = o_total_cents r \<and>
         oo_items out = map item_out (filter (\<lambda>i. oi_order_id i = o_id r) (order_items d))"
    by (auto simp: order_out_def items_of_def)
  from get_orders_me_eq[of user d] 1 2 3 desc 4 show ?thesis by blast
qed

theorem C6_list_orders_for_user_witness:
  "(\<exists>outs cs.
     get_orders_me ''ann'' ledger = (Inr outs, ledger, cs) \<and>
     (\<forall>out\<in>set outs. oo_user_id out = ''ann'') \<and>
     set (map oo_id outs) = {o_id r |r. r \<in> set (orders ledger) \<and> o_user_id r = ''ann''} \<and>
     length outs = length (filter (\<lambda>r. o_user_id r = ''ann'') (orders ledger)) \<and>
     sorted_wrt (>) (map oo_id outs) \<and>
     (\<forall>out\<in>set outs. \<exists>r\<in>set (orders ledger).
         o_user_id r = ''ann'' \<and> oo_id out = o_id r \<and> oo_total_cents out = o_total_cents r \<and>
         oo_items out = map item_out (filter (\<lambda>i. oi_order_id i = o_id r) (order_items ledger)))) \<and>
   fst (get_orders_me ''ann'' ledger) =
     Inr [\<lparr>oo_id = 3, oo_user_id = ''ann'', oo_total_cents = 999,
            oo_items = [\<lparr>out_product_id = 1, out_qty = 1, out_price_cents = 250\<rparr>]\<rparr>,
          \<lparr>oo_id = 1, oo_user_id = ''ann'', oo_total_cents = 500,
            oo_items = [\<lparr>out_product_id = 1, out_qty = 2, out_price_cents = 250\<rparr>]\<rparr>]"
proof -
  have h: "distinct (map o_id (orders ledger))" by (simp add: ledger_def)
  have "fst (get_orders_me ''ann'' ledger) =
     Inr [\<lparr>oo_id = 3, oo_user_id = ''ann'', oo_total_cents = 999,
            oo_items = [\<lparr>out_product_id = 1, out_qty = 1, out_price_cents = 250\<rparr>]\<rparr>,
          \<lparr>oo_id = 1, oo_user_id = ''ann'', oo_total_cents = 500,
            oo_items = [\<lparr>out_product_id = 1, out_qty = 2, out_price_cents = 250\<rparr>]\<rparr>]"
    by (simp add: get_orders_me_eq ledger_def order_out_def items_of_def item_out_def)
  with C6_list_orders_for_user[OF h, of "''ann''"] show ?thesis by blast
qed

section \<open>Orders and later changes of the catalog\<close>

lemma catalog_step_orders:
  "orders (catalog_step req d) = orders d \<and> order_items (catalog_step req d) = order_items d \<and>
   orders_seq (catalog_step req d) = orders_seq d \<and>
   order_items_seq (catalog_step req d) = order_items_seq d"
  by (cases req)
     (auto simp: catalog_get_session_def create_product_def update_product_def delete_product_def
        called_def rolled_back_def Let_def split: option.splits)

lemma fold_catalog_step_orders:
  "orders (fold catalog_step reqs d) = orders d \<and>
   order_items (fold catalog_step reqs d) = order_items d"
  by (induction reqs arbitrary: d) (simp_all add: catalog_step_orders)

lemma order_out_cong:
  "order_items d' = order_items d \<Longrightarrow> order_out d' r = order_out d r"
  by (simp add: order_out_def items_of_def)

lemma get_orders_me_cong:
  assumes "orders d' = orders d" and "order_items d' = order_items d"
  shows "fst (get_orders_me user d') = fst (get_orders_me user d)"
  using assms by (simp add: get_orders_me_eq order_out_cong[OF assms(2)] cong: map_cong)

lemma create_order_returns_row:
  assumes "create_order payload user now s = (Inr out, s')"
  shows "\<exists>r\<in>set (orders (cur s')). out = order_out (cur s') r"
  using assms
  by (auto simp: create_order_def Let_def case_prod_beta called_def
        split: if_splits sum.splits option.splits prod.splits dest!: find_Some_D)

lemma post_orders_returns_row:
  assumes "post_orders payload user now d = (Inr out, d1, cs)"
  shows "\<exists>r\<in>set (orders d1). out = order_out d1 r"
proof -
  let ?s0 = "execute \<lparr>cur = d, calls = []\<rparr> CREATE_SCHEMA"
  obtain r s' where co: "create_order payload user now ?s0 = (r, s')"
    by (cases "create_order payload user now ?s0")
  with assms have "r = Inr out" "cur s' = d1"
    by (cases r; simp add: post_orders_def get_session_def)+
  with co create_order_returns_row[of payload user now ?s0 out s'] show ?thesis by simp
qed

lemma listed:
  assumes "r \<in> set (orders d)"
  shows "order_out d r \<in> set (map (order_out d)
     (sort_key (\<lambda>r. - o_id r) (filter (\<lambda>x. o_user_id x = oo_user_id (order_out d r)) (orders d))))"
  using assms by (auto simp: order_out_def)

text \<open>
  C7: after \<open>POST /orders\<close> has returned an order, no sequence of writes to the catalog
  (new products, updates of name, price and stock, deletions) changes a row of \<open>orders\<close>
  or of \<open>order_items\<close>; every user's listing is what it was before those writes, and the
  listing of the order's user still contains the order exactly as it was returned, with
  the item prices and the total of the time of the order.
\<close>

theorem C7_prices_frozen:
  assumes "post_orders payload user now d = (Inr out, d1, cs)"
  shows "orders (fold catalog_step reqs d1) = orders d1 \<and>
         order_items (fold catalog_step reqs d1) = order_items d1 \<and>
         fst (get_orders_me u (fold catalog_step reqs d1)) = fst (get_orders_me u d1) \<and>
         (\<exists>outs. fst (get_orders_me (oo_user_id out) (fold catalog_step reqs d1)) = Inr outs \<and>
                 out \<in> set outs)"
proof -
  let ?d2 = "fold catalog_step reqs d1"
  note fr = fold_catalog_step_orders[of reqs d1]
  have same: "fst (get_orders_me v ?d2) = fst (get_orders_me v d1)" for v
    using fr by (intro get_orders_me_cong) simp_all
  from post_orders_returns_row[OF assms] obtain r where
    r: "r \<in> set (orders d1)" "out = order_out d1 r" by blast
  have "fst (get_orders_me (oo_user_id out) d1) =
      Inr (map (order_out d1)
        (sort_key (\<lambda>r. - o_id r) (filter (\<lambda>x. o_user_id x = oo_user_id out) (orders d1))))"
    by (simp add: get_orders_me_eq)
  moreover have "out \<in> set (map (order_out d1)
        (sort_key (\<lambda>r. - o_id r) (filter (\<lambda>x. o_user_id x = oo_user_id out) (orders d1))))"
    unfolding r(2) using r(1) by (rule listed)
  ultimately have "\<exists>outs. fst (get_orders_me (oo_user_id out) ?d2) = Inr outs \<and> out \<in> set outs"
    by (simp only: same) blast
  with fr same[of u] show ?thesis by blast
qed

theorem C7_prices_frozen_witness:
  "fst (post_orders \<lparr>items = [line 1 2]\<rparr> ''ann'' 7 shop) =
     Inr \<lparr>oo_id = 1, oo_user_id = ''ann'', oo_total_cents = 500,
          oo_items = [\<lparr>out_product_id = 1, out_qty = 2, out_price_cents = 250\<rparr>]\<rparr> \<and>
   price_of (fold catalog_step [reprice] (fst (snd (post_orders \<lparr>items = [line 1 2]\<rparr> ''ann'' 7 shop)))) 1
     = 999 \<and>
   (\<exists>outs. fst (get_orders_me ''ann''
               (fold catalog_step [reprice]
                  (fst (snd (post_orders \<lparr>items = [line 1 2]\<rparr> ''ann'' 7 shop))))) = Inr outs \<and>
           \<lparr>oo_id = 1, oo_user_id = ''ann'', oo_total_cents = 500,
            oo_items = [\<lparr>out_product_id = 1, out_qty = 2, out_price_cents = 250\<rparr>]\<rparr> \<in> set outs)"
proof -
  let ?r = "post_orders \<lparr>items = [line 1 2]\<rparr> ''ann'' 7 shop"
  let ?out = "\<lparr>oo_id = 1, oo_user_id = ''ann'', oo_total_cents = 500,
          oo_items = [\<lparr>out_product_id = 1, out_qty = 2, out_price_cents = 250\<rparr>]\<rparr>"
  have 1: "fst ?r = Inr ?out" by code_simp
  then have h: "?r = (Inr ?out, fst (snd ?r), snd (snd ?r))" by (simp add: prod_eq_iff)
  have 2: "price_of (fold catalog_step [reprice] (fst (snd ?r))) 1 = 999" by code_simp
  from C7_prices_frozen[OF h, of "[reprice]" "''ann''"]
  have "\<exists>outs. fst (get_orders_me (oo_user_id ?out) (fold catalog_step [reprice] (fst (snd ?r)))) = Inr outs \<and>
          ?out \<in> set outs"
    by blast
  then have 3: "\<exists>outs. fst (get_orders_me ''ann'' (fold catalog_step [reprice] (fst (snd ?r)))) = Inr outs \<and>
          ?out \<in> set outs"
    by simp
  from 1 2 3 show ?thesis by blast
qed

section \<open>Stock never goes below zero\<close>

lemma update_stock_nonneg:
  "list_all (\<lambda>p. 0 \<le> p_stock p) ps \<Longrightarrow>
   list_all (\<lambda>p. 0 \<le> p_stock p) (fst (update_stock ps pid qty))"
  by (induction ps) (auto simp: update_stock_def)

lemma foldl_update_stock_nonneg:
  "list_all (\<lambda>p. 0 \<le> p_stock p) ps \<Longrightarrow>
   list_all (\<lambda>p. 0 \<le> p_stock p)
     (foldl (\<lambda>ps (pid, qty). fst (update_stock ps pid qty)) ps its)"
  by (induction its arbitrary: ps) (auto simp: update_stock_nonneg)

lemma update_stock_none:
  "snd (update_stock ps pid qty) = 0 \<Longrightarrow> fst (update_stock ps pid qty) = ps"
  by (auto simp: update_stock_def filter_empty_conv intro!: map_idI)

lemma update_stock_row:
  assumes "distinct (map p_id ps)" and "snd (update_stock ps pid qty) = 1"
  shows "\<exists>p. get_product_row ps pid = Some p \<and> qty \<le> p_stock p \<and>
             get_product_row (fst (update_stock ps pid qty)) pid = Some (p\<lparr>p_stock := p_stock p - qty\<rparr>)"
proof -
  from update_stock_rowcount[OF assms(1), of pid qty] assms(2)
  obtain p0 where p0: "p0 \<in> set ps" "p_id p0 = pid" "qty \<le> p_stock p0" by blast
  then have "pid \<in> set (map p_id ps)" by auto
  from known_row[OF this] obtain p where
    p: "get_product_row ps pid = Some p" "p \<in> set ps" "p_id p = pid" by blast
  with pk_unique[OF assms(1) p(2) p0(1)] p0 have eq: "p = p0" by simp
  have fm: "find (\<lambda>r. p_id r = pid)
          (map (\<lambda>r. if p_id r = pid \<and> qty \<le> p_stock r then r\<lparr>p_stock := p_stock r - qty\<rparr> else r) xs) =
        map_option (\<lambda>r. if p_id r = pid \<and> qty \<le> p_stock r then r\<lparr>p_stock := p_stock r - qty\<rparr> else r)
          (find (\<lambda>r. p_id r = pid) xs)" for xs
    by (induction xs) auto
  from p(1) have "get_product_row (fst (update_stock ps pid qty)) pid = Some (p\<lparr>p_stock := p_stock p - qty\<rparr>)"
    using p0 eq by (simp add: get_product_row_def update_stock_def fm)
  with p(1) p0(3) eq show ?thesis by blast
qed

lemma catalog_step_products:
  fixes d req
  defines "I \<equiv> \<lambda>d. distinct (map p_id (products d)) \<and>
      list_all (\<lambda>p. p_id p \<le> products_seq d) (products d) \<and> stock_ok d \<and>
      list_all (\<lambda>p. int4 (p_price_cents p) \<and> int4 (p_stock p)) (products d)"
  assumes "I d"
  shows "I (catalog_step req d)"
proof (cases req)
  case (Post_product payload)
  show ?thesis
  proof (cases "ProductIn_valid payload \<and> int4 (pin_price_cents payload) \<and> int4 (pin_stock payload)")
    case False
    with assms Post_product show ?thesis
      by (auto simp: I_def stock_ok_def catalog_get_session_def create_product_def called_def
            rolled_back_def)
  next
    case True
    with assms Post_product show ?thesis
      by (auto simp: I_def stock_ok_def catalog_get_session_def create_product_def called_def Let_def
            ProductIn_valid_def list_all_iff)
  qed
next
  case (Put_product pid payload)
  show ?thesis
  proof (cases "ProductIn_valid payload")
    case False
    with assms Put_product show ?thesis by simp
  next
    case True
    show ?thesis
    proof (cases "get_product_row (products d) pid")
      case None
      with assms Put_product True show ?thesis
        by (simp add: I_def stock_ok_def catalog_get_session_def update_product_def rolled_back_def)
    next
      case (Some p)
      show ?thesis
      proof (cases "int4 (pin_price_cents payload) \<and> int4 (pin_stock payload)")
        case False
        with assms Put_product True Some show ?thesis
          by (auto simp: I_def stock_ok_def catalog_get_session_def update_product_def called_def
                rolled_back_def)
      next
        case fits: True
        from Some have pid: "p_id p = pid" by (auto simp: get_product_row_def dest: find_Some_D)
        let ?p' = "p\<lparr>p_name := pin_name payload, p_price_cents := pin_price_cents payload,
                       p_stock := pin_stock payload\<rparr>"
        have ids: "map p_id (map (\<lambda>r. if p_id r = pid then ?p' else r) (products d)) = map p_id (products d)"
          using pid by (induction "products d") (auto simp: comp_def)
        have prods: "products (catalog_step req d) = map (\<lambda>r. if p_id r = pid then ?p' else r) (products d)"
          and seq: "products_seq (catalog_step req d) = products_seq d"
          using Put_product True Some fits
          by (simp_all add: catalog_get_session_def update_product_def called_def Let_def)
        have 1: "distinct (map p_id (products (catalog_step req d)))"
          using assms by (simp only: prods ids I_def stock_ok_def)
        have 2: "list_all (\<lambda>p. p_id p \<le> products_seq (catalog_step req d)) (products (catalog_step req d))"
          using assms by (auto simp: prods seq I_def stock_ok_def list_all_iff pid)
        have 3: "stock_ok (catalog_step req d)"
          using assms True by (auto simp: prods I_def stock_ok_def list_all_iff ProductIn_valid_def)
        have 4: "list_all (\<lambda>p. int4 (p_price_cents p) \<and> int4 (p_stock p)) (products (catalog_step req d))"
          using assms fits by (auto simp: prods I_def list_all_iff)
        from 1 2 3 4 show ?thesis by (simp only: I_def)
      qed
    qed
  qed
next
  case (Delete_product pid)
  show ?thesis
  proof (cases "get_product_row (products d) pid")
    case None
    with assms Delete_product show ?thesis
      by (simp add: I_def stock_ok_def catalog_get_session_def delete_product_def rolled_back_def)
  next
    case (Some p)
    with assms Delete_product show ?thesis
      by (auto simp: I_def stock_ok_def catalog_get_session_def delete_product_def called_def
            list_all_iff distinct_map_filter)
  qed
qed

text \<open>
  A conditional update with a quantity that is not negative leaves the stock between
  zero and the value it had, hence within the range of the column.
\<close>

lemma update_stock_fits:
  "0 \<le> qty \<Longrightarrow>
   list_all (\<lambda>p. 0 \<le> p_stock p \<and> int4 (p_price_cents p) \<and> int4 (p_stock p)) ps \<Longrightarrow>
   list_all (\<lambda>p. 0 \<le> p_stock p \<and> int4 (p_price_cents p) \<and> int4 (p_stock p))
     (fst (update_stock ps pid qty))"
  by (induction ps) (auto simp: update_stock_def int4_def)

lemma foldl_update_stock_fits:
  "list_all (\<lambda>(pid, qty). 0 \<le> qty) its \<Longrightarrow>
   list_all (\<lambda>p. 0 \<le> p_stock p \<and> int4 (p_price_cents p) \<and> int4 (p_stock p)) ps \<Longrightarrow>
   list_all (\<lambda>p. 0 \<le> p_stock p \<and> int4 (p_price_cents p) \<and> int4 (p_stock p))
     (foldl (\<lambda>ps (pid, qty). fst (update_stock ps pid qty)) ps its)"
proof (induction its arbitrary: ps)
  case Nil
  then show ?case by simp
next
  case (Cons x its)
  obtain pid qty where x: "x = (pid, qty)" by (cases x)
  from Cons.prems(1) have q: "0 \<le> qty" and rest: "list_all (\<lambda>(pid, qty). 0 \<le> qty) its"
    by (simp_all add: x)
  from Cons.IH[OF rest update_stock_fits[OF q Cons.prems(2), of pid]] show ?case
    by (simp add: x)
qed

section \<open>The reservation\<close>

text \<open>A reservation of one product: the statement, its row count and what it leaves.\<close>

lemma reserve_one:
  "reserve_stock s [(pid, qty)] =
     (if snd (update_stock (products (cur s)) pid qty) = 1 then Inr ()
      else Inl (HTTPException 400 (Insufficient_stock pid)),
      s\<lparr>cur := (cur s)\<lparr>products := fst (update_stock (products (cur s)) pid qty)\<rparr>,
        calls := calls s @ [Execute (UPDATE_stock pid qty)]\<rparr>)"
  by (simp add: Let_def execute_def)

lemma update_stock_one:
  assumes "distinct (map p_id ps)" and "\<exists>p\<in>set ps. p_id p = pid \<and> qty \<le> p_stock p"
  shows "fst (update_stock ps pid qty) =
     map (\<lambda>p. if p_id p = pid then p\<lparr>p_stock := p_stock p - qty\<rparr> else p) ps"
proof -
  from assms(2) obtain p0 where p0: "p0 \<in> set ps" "p_id p0 = pid" "qty \<le> p_stock p0" by blast
  have "\<And>p. p \<in> set ps \<Longrightarrow> p_id p = pid \<Longrightarrow> qty \<le> p_stock p"
    using pk_unique[OF assms(1) _ p0(1)] p0 by auto
  then show ?thesis by (auto simp: update_stock_def)
qed

lemma update_stock_zero:
  assumes "distinct (map p_id ps)" and "snd (update_stock ps pid qty) \<noteq> 1"
  shows "fst (update_stock ps pid qty) = ps"
proof -
  have "length (filter (\<lambda>p. p_id p = pid \<and> qty \<le> p_stock p) ps) \<le> 1"
    using assms(1) by (rule filter_pk_length)
  with assms(2) have "snd (update_stock ps pid qty) = 0"
    by (simp add: update_stock_def le_Suc_eq)
  then show ?thesis by (rule update_stock_none)
qed

lemma reserve_stock_nonneg:
  "stock_ok (cur s) \<Longrightarrow> stock_ok (cur (snd (reserve_stock s its)))"
proof (induction its arbitrary: s)
  case Nil
  then show ?case by simp
next
  case (Cons x its)
  obtain pid qty where x: "x = (pid, qty)" by (cases x)
  let ?s' = "execute (s\<lparr>cur := (cur s)\<lparr>products := fst (update_stock (products (cur s)) pid qty)\<rparr>\<rparr>)
               (UPDATE_stock pid qty)"
  from Cons.prems have ok: "stock_ok (cur ?s')"
    by (simp add: stock_ok_def execute_def update_stock_nonneg)
  from Cons.IH[OF ok] ok show ?case by (simp add: x Let_def)
qed

lemma reserve_stock_Cons:
  "reserve_stock s ((pid, qty) # its) =
     (case reserve_stock s [(pid, qty)] of
        (Inl e, s') \<Rightarrow> (Inl e, s')
      | (Inr u, s') \<Rightarrow> reserve_stock s' its)"
  by (simp add: Let_def)

section \<open>The declared keys hold in every reachable state\<close>

lemma insert_items_seq:
  "insert_items d pend = Inr d' \<Longrightarrow> order_items_seq d \<le> order_items_seq d'"
proof (induction pend arbitrary: d)
  case Nil
  then show ?case by simp
next
  case (Cons i pend)
  from Cons.prems have fit: "int4 (oi_qty i) \<and> int4 (oi_price_cents i)"
    by (simp split: if_splits)
  with Cons.prems Cons.IH[of "d\<lparr>order_items := order_items d @ [i\<lparr>oi_id := order_items_seq d + 1\<rparr>],
                  order_items_seq := order_items_seq d + 1\<rparr>"]
  show ?case by simp
qed

lemma insert_items_keys:
  "insert_items d pend = Inr d' \<Longrightarrow>
   distinct (map oi_id (order_items d)) \<Longrightarrow>
   list_all (\<lambda>i. oi_id i \<le> order_items_seq d \<and> oi_order_id i \<le> n) (order_items d) \<Longrightarrow>
   list_all (\<lambda>i. oi_order_id i \<le> n) pend \<Longrightarrow>
   distinct (map oi_id (order_items d')) \<and>
   list_all (\<lambda>i. oi_id i \<le> order_items_seq d' \<and> oi_order_id i \<le> n) (order_items d')"
proof (induction pend arbitrary: d)
  case Nil
  then show ?case by simp
next
  case (Cons i pend)
  let ?d1 = "d\<lparr>order_items := order_items d @ [i\<lparr>oi_id := order_items_seq d + 1\<rparr>],
               order_items_seq := order_items_seq d + 1\<rparr>"
  from Cons.prems(1) have fit: "int4 (oi_qty i) \<and> int4 (oi_price_cents i)"
    by (simp split: if_splits)
  with Cons.prems(1) have 0: "insert_items ?d1 pend = Inr d'" by simp
  have 1: "distinct (map oi_id (order_items ?d1))"
    using Cons.prems(2,3) by (auto simp: list_all_iff)
  have 2: "list_all (\<lambda>i. oi_id i \<le> order_items_seq ?d1 \<and> oi_order_id i \<le> n) (order_items ?d1)"
    using Cons.prems(3,4) by (auto simp: list_all_iff)
  have 3: "list_all (\<lambda>i. oi_order_id i \<le> n) pend" using Cons.prems(4) by simp
  from Cons.IH[OF 0 1 2 3] show ?case .
qed

lemma snapshot_order_id:
  "snapshot prices oid its t pend0 = Inr (t', pend) \<Longrightarrow>
   list_all (\<lambda>i. oi_order_id i = oid) pend0 \<Longrightarrow> list_all (\<lambda>i. oi_order_id i = oid) pend"
proof (induction its arbitrary: t pend0)
  case Nil
  then show ?case by simp
next
  case (Cons x its)
  obtain pid qty where x: "x = (pid, qty)" by (cases x)
  from Cons.prems(1) obtain price where pr: "map_of prices pid = Some price"
    by (cases "map_of prices pid") (simp_all add: x)
  with Cons.prems show ?case
    by (intro Cons.IH[of "t + price * qty"
          "pend0 @ [\<lparr>oi_id = 0, oi_order_id = oid, oi_product_id = pid, oi_qty = qty,
                     oi_price_cents = price\<rparr>]"]) (simp_all add: x)
qed

lemma set_total_ids: "set_total os oid t = Inr os' \<Longrightarrow> map o_id os' = map o_id os"
  by (auto simp: set_total_def comp_def split: if_splits)

text \<open>What \<open>create_order\<close> leaves in the two tables of the order service.\<close>

lemma create_order_orders:
  assumes "create_order payload user now s = (r, s')"
  shows "(case r of
      Inl e \<Rightarrow> orders_seq (cur s) \<le> orders_seq (cur s') \<and>
               order_items_seq (cur s) \<le> order_items_seq (cur s')
    | Inr out \<Rightarrow> \<exists>D pend.
        insert_items D pend = Inr (cur s') \<and>
        map o_id (orders D) = map o_id (orders (cur s)) @ [orders_seq (cur s) + 1] \<and>
        orders_seq D = orders_seq (cur s) + 1 \<and>
        order_items D = order_items (cur s) \<and>
        order_items_seq D = order_items_seq (cur s) \<and>
        list_all (\<lambda>i. oi_order_id i = orders_seq (cur s) + 1) pend)"
proof -
  let ?C = "combine (items payload) []"
  let ?fp = "fetch_prices s (dict_keys ?C)"
  obtain r2 s2 where rs: "reserve_stock (snd ?fp) ?C = (r2, s2)"
    by (cases "reserve_stock (snd ?fp) ?C")
  have fr: "orders (cur s2) = orders (cur s)" "order_items (cur s2) = order_items (cur s)"
    "orders_seq (cur s2) = orders_seq (cur s)" "order_items_seq (cur s2) = order_items_seq (cur s)"
    using reserve_stock_frame[of "snd ?fp" ?C] rs by (simp_all add: fetch_prices_cur)
  let ?oid = "orders_seq (cur s) + 1"
  let ?sn = "snapshot (fst ?fp) ?oid ?C 0 []"
  show ?thesis
  proof (cases "items payload = [] \<or> length (fst ?fp) \<noteq> length (dict_keys ?C)")
    case True
    with assms show ?thesis
      by (auto simp: create_order_def Let_def case_prod_beta fetch_prices_cur split: if_splits)
  next
    case False
    note ok = this
    show ?thesis
    proof (cases r2)
      case (Inl e)
      with assms rs ok fr show ?thesis
        by (auto simp: create_order_def Let_def case_prod_beta)
    next
      case (Inr u)
      show ?thesis
      proof (cases "insert_order (cur s2) user now 0")
        case (Inl e)
        with assms rs ok fr Inr show ?thesis
          by (auto simp: create_order_def Let_def case_prod_beta called_def)
      next
        case io: (Inr d3)
        then have d3: "d3 = (cur s2)\<lparr>orders := orders (cur s2) @
              [\<lparr>o_id = ?oid, o_user_id = user, o_created_at = now, o_total_cents = 0\<rparr>],
            orders_seq := ?oid\<rparr>"
          by (auto simp: insert_order_def fr split: if_splits)
        let ?s3 = "called (s2\<lparr>cur := d3\<rparr>) Flush"
        have co: "create_order payload user now s =
            (case ?sn of
               Inl e \<Rightarrow> (Inl e, ?s3)
             | Inr (total_c, pending) \<Rightarrow>
                 (case set_total (orders d3) ?oid total_c of
                    Inl e \<Rightarrow> (Inl e, called ?s3 Flush)
                  | Inr os \<Rightarrow>
                      (case insert_items (d3\<lparr>orders := os\<rparr>) pending of
                         Inl e \<Rightarrow> (Inl e, called ?s3 Flush)
                       | Inr d4 \<Rightarrow>
                           (case find (\<lambda>r. o_id r = ?oid) (orders d4) of
                              None \<Rightarrow> (Inl InvalidRequestError,
                                        called (called (?s3\<lparr>cur := d4\<rparr>) Flush) (Refresh ?oid))
                            | Some order \<Rightarrow>
                                (Inr (order_out d4 order),
                                 called (called (called (?s3\<lparr>cur := d4\<rparr>) Flush) (Refresh ?oid))
                                   (Load_items ?oid))))))"
          using rs ok Inr io
          by (simp add: create_order_def Let_def case_prod_beta fr called_def
                cong: sum.case_cong option.case_cong)
        have s3: "orders_seq (cur ?s3) = ?oid" "order_items_seq (cur ?s3) = order_items_seq (cur s)"
          by (simp_all add: called_def d3 fr)
        show ?thesis
        proof (cases ?sn)
          case (Inl e)
          with assms co s3 show ?thesis by (auto simp: called_def)
        next
          case snr: (Inr tp)
          obtain t pend where tp: "tp = (t, pend)" by (cases tp)
          have pend: "list_all (\<lambda>i. oi_order_id i = ?oid) pend"
            using snapshot_order_id[of "fst ?fp" ?oid ?C 0 "[]" t pend] snr tp by simp
          show ?thesis
          proof (cases "set_total (orders d3) ?oid t")
            case (Inl e)
            with assms co snr tp s3 show ?thesis by (auto simp: called_def)
          next
            case st: (Inr os)
            let ?D = "d3\<lparr>orders := os\<rparr>"
            have D: "map o_id (orders ?D) = map o_id (orders (cur s)) @ [?oid]"
              "orders_seq ?D = ?oid" "order_items ?D = order_items (cur s)"
              "order_items_seq ?D = order_items_seq (cur s)"
              using set_total_ids[OF st] by (simp_all add: d3 fr)
            show ?thesis
            proof (cases "insert_items ?D pend")
              case (Inl e)
              with assms co snr tp st s3 show ?thesis by (auto simp: called_def)
            next
              case ii: (Inr d4)
              note fr4 = insert_items_frame[OF ii] insert_items_seq[OF ii]
              show ?thesis
              proof (cases "find (\<lambda>r. o_id r = ?oid) (orders d4)")
                case None
                with assms co snr tp st ii have "r = Inl InvalidRequestError" "cur s' = d4"
                  by (auto simp: called_def)
                with fr4 D show ?thesis by simp
              next
                case (Some order)
                with assms co snr tp st ii have r: "r = Inr (order_out d4 order)" and c: "cur s' = d4"
                  by (auto simp: called_def)
                have "\<exists>D pend'.
                    insert_items D pend' = Inr (cur s') \<and>
                    map o_id (orders D) = map o_id (orders (cur s)) @ [orders_seq (cur s) + 1] \<and>
                    orders_seq D = orders_seq (cur s) + 1 \<and>
                    order_items D = order_items (cur s) \<and>
                    order_items_seq D = order_items_seq (cur s) \<and>
                    list_all (\<lambda>i. oi_order_id i = orders_seq (cur s) + 1) pend'"
                  using ii c D pend by (intro exI[of _ ?D] exI[of _ pend]) (simp only: simp_thms)
                with r show ?thesis by simp
              qed
            qed
          qed
        qed
      qed
    qed
  qed
qed

lemma combine_nonneg:
  "list_all OrderItemIn_valid its \<Longrightarrow> list_all (\<lambda>(pid, qty). 0 \<le> qty) (combine its [])"
  by (simp add: combine_requested list_all_iff requested_nonneg)

lemma post_orders_db_ok:
  assumes "db_ok d" and "stock_ok d" and "list_all OrderItemIn_valid (items payload)"
  shows "db_ok (fst (snd (post_orders payload user now d)))"
proof -
  let ?s0 = "execute \<lparr>cur = d, calls = []\<rparr> CREATE_SCHEMA"
  let ?d' = "fst (snd (post_orders payload user now d))"
  obtain r s' where co: "create_order payload user now ?s0 = (r, s')"
    by (cases "create_order payload user now ?s0")
  have cur0: "cur ?s0 = d" by (simp add: execute_def)
  note pr = post_orders_products[of payload user now d]
  from assms pr have P: "distinct (map p_id (products ?d'))"
    "list_all (\<lambda>p. p_id p \<le> products_seq ?d') (products ?d')"
  proof -
    from assms pr show "distinct (map p_id (products ?d'))" by (simp add: db_ok_def)
    have "set (map p_id (products ?d')) = set (map p_id (products d))" using pr by simp
    then have "\<forall>p\<in>set (products ?d'). p_id p \<in> p_id ` set (products d)" by auto
    with assms pr show "list_all (\<lambda>p. p_id p \<le> products_seq ?d') (products ?d')"
      by (auto simp: db_ok_def list_all_iff)
  qed
  have fits: "list_all (\<lambda>p. 0 \<le> p_stock p \<and> int4 (p_price_cents p) \<and> int4 (p_stock p)) (products d)"
    using assms(1,2) by (auto simp: db_ok_def stock_ok_def list_all_iff)
  from pr have "products ?d' = products d \<or>
      products ?d' = foldl (\<lambda>ps (pid, qty). fst (update_stock ps pid qty)) (products d)
        (combine (items payload) [])" by blast
  with fits foldl_update_stock_fits[OF combine_nonneg[OF assms(3)] fits]
  have "list_all (\<lambda>p. 0 \<le> p_stock p \<and> int4 (p_price_cents p) \<and> int4 (p_stock p)) (products ?d')"
    by auto
  then have P4: "list_all (\<lambda>p. int4 (p_price_cents p) \<and> int4 (p_stock p)) (products ?d')"
    by (auto simp: list_all_iff)
  note oo = create_order_orders[OF co, unfolded cur0]
  show ?thesis
  proof (cases r)
    case (Inl e)
    with co have d': "?d' = rolled_back d (cur s')"
      by (simp add: post_orders_def get_session_def)
    from oo Inl have le: "orders_seq d \<le> orders_seq (cur s')"
      "order_items_seq d \<le> order_items_seq (cur s')" by simp_all
    have O: "distinct (map o_id (orders ?d'))"
      "list_all (\<lambda>r. o_id r \<le> orders_seq ?d') (orders ?d')"
      "distinct (map oi_id (order_items ?d'))"
      "list_all (\<lambda>i. oi_id i \<le> order_items_seq ?d' \<and> oi_order_id i \<le> orders_seq ?d') (order_items ?d')"
      using assms(1) le by (auto simp: d' rolled_back_def db_ok_def list_all_iff)
    with P P4 show ?thesis by (simp only: db_ok_def simp_thms)
  next
    case (Inr out)
    with co have d': "?d' = cur s'"
      by (simp add: post_orders_def get_session_def)
    from oo Inr obtain D pend where
      D: "insert_items D pend = Inr (cur s')"
        "map o_id (orders D) = map o_id (orders d) @ [orders_seq d + 1]"
        "orders_seq D = orders_seq d + 1"
        "order_items D = order_items d"
        "order_items_seq D = order_items_seq d"
        "list_all (\<lambda>i. oi_order_id i = orders_seq d + 1) pend"
      by auto
    note fr = insert_items_frame[OF D(1)]
    have O1: "distinct (map o_id (orders ?d'))"
      using assms(1) by (auto simp: d' fr D db_ok_def list_all_iff)
    have "set (map o_id (orders ?d')) = insert (orders_seq d + 1) (set (map o_id (orders d)))"
      by (simp add: d' fr D(2))
    then have m: "\<forall>r\<in>set (orders ?d'). o_id r = orders_seq d + 1 \<or> o_id r \<in> o_id ` set (orders d)"
      by auto
    have old: "\<forall>x\<in>o_id ` set (orders d). x \<le> orders_seq d"
      using assms(1) by (auto simp: db_ok_def list_all_iff)
    have sq: "orders_seq ?d' = orders_seq d + 1" by (simp add: d' D(3) fr)
    have O2: "list_all (\<lambda>r. o_id r \<le> orders_seq ?d') (orders ?d')"
      unfolding list_all_iff sq
    proof
      fix r assume "r \<in> set (orders ?d')"
      with m have "o_id r = orders_seq d + 1 \<or> o_id r \<in> o_id ` set (orders d)" by blast
      with old show "o_id r \<le> orders_seq d + 1" by fastforce
    qed
    have k1: "distinct (map oi_id (order_items D))" using assms(1) by (simp add: D db_ok_def)
    have k2: "list_all (\<lambda>i. oi_id i \<le> order_items_seq D \<and> oi_order_id i \<le> orders_seq d + 1) (order_items D)"
      using assms(1) by (auto simp: D db_ok_def list_all_iff)
    have k3: "list_all (\<lambda>i. oi_order_id i \<le> orders_seq d + 1) pend"
      using D(6) by (auto simp: list_all_iff)
    from insert_items_keys[OF D(1) k1 k2 k3]
    have O3: "distinct (map oi_id (order_items ?d'))"
      "list_all (\<lambda>i. oi_id i \<le> order_items_seq ?d' \<and> oi_order_id i \<le> orders_seq ?d') (order_items ?d')"
      by (simp_all add: d' D(3) fr)
    from P P4 O1 O2 O3 show ?thesis by (simp only: db_ok_def simp_thms)
  qed
qed

lemma post_orders_stock_ok:
  assumes "stock_ok d"
  shows "stock_ok (fst (snd (post_orders payload user now d)))"
  using post_orders_products[of payload user now d] assms
    foldl_update_stock_nonneg[of "products d" "combine (items payload) []"]
  by (auto simp: stock_ok_def)

lemma route_post_orders_ok:
  assumes "db_ok d" and "stock_ok d"
  shows "db_ok (fst (snd (route_post_orders fw x_user payload now d))) \<and>
         stock_ok (fst (snd (route_post_orders fw x_user payload now d)))"
proof (cases "require_user x_user")
  case (Inl e)
  with assms show ?thesis by (simp add: route_post_orders_refused)
next
  case (Inr user)
  show ?thesis
  proof (cases "OrderCreate_valid payload")
    case True
    then have "list_all OrderItemIn_valid (items payload)" by (simp add: OrderCreate_valid_def)
    from post_orders_db_ok[OF assms this, of user now] post_orders_stock_ok[OF assms(2), of payload user now]
    show ?thesis by (simp only: route_post_orders_valid[OF Inr True])
  next
    case False
    with assms show ?thesis by (simp add: route_post_orders_invalid[OF Inr False])
  qed
qed

lemma catalog_step_db_ok:
  assumes "db_ok d" and "stock_ok d"
  shows "db_ok (catalog_step req d) \<and> stock_ok (catalog_step req d)"
  using catalog_step_products[of d req] catalog_step_orders[of req d] assms
  by (simp add: db_ok_def)

lemma reachable_ok: "reachable d \<Longrightarrow> db_ok d \<and> stock_ok d"
proof (induction rule: reachable.induct)
  case init
  show ?case by (simp add: empty_db_def db_ok_def stock_ok_def)
next
  case (catalog d req)
  then show ?case by (simp add: catalog_step_db_ok)
next
  case (order d fw x_user payload now)
  then show ?case by (simp add: route_post_orders_ok)
qed

lemma reachable_shop: "reachable shop"
proof -
  let ?pen = "\<lparr>pin_name = ''pen'', pin_price_cents = 250, pin_stock = 10\<rparr>"
  let ?ink = "\<lparr>pin_name = ''ink'', pin_price_cents = 400, pin_stock = 3\<rparr>"
  have "catalog_step (Post_product ?ink) (catalog_step (Post_product ?pen) empty_db) = shop"
    by (simp add: catalog_get_session_def create_product_def called_def ProductIn_valid_def
          empty_db_def shop_def pen_def ink_def int4_def Let_def)
  moreover have "reachable (catalog_step (Post_product ?ink) (catalog_step (Post_product ?pen) empty_db))"
    by (intro reachable.catalog reachable.init)
  ultimately show ?thesis by simp
qed

text \<open>
  C3: a reservation of \<open>qty\<close> units of a product sends one statement, the conditional
  update. On a table with unique ids it succeeds if and only if a row with that id
  exists and its stock is at least the quantity; it then lowers the stock of that row
  by the quantity, to a value that is not negative, and keeps every other row and
  every other table as they were; otherwise it raises \<open>insufficient stock\<close>, naming
  the product, and leaves the database as it was. A list of reservations is served
  item by item and stops at the first one that fails. Whatever the list, a table free
  of negative stock stays free of it, and in every state the two services can reach
  from the empty database the ids of \<open>products\<close> are unique and no stock is negative.
\<close>

theorem C3_reservation_guard:
  "(distinct (map p_id (products (cur s))) \<longrightarrow>
      (fst (reserve_stock s [(pid, qty)]) = Inr () \<longleftrightarrow>
         (\<exists>p\<in>set (products (cur s)). p_id p = pid \<and> qty \<le> p_stock p)) \<and>
      (fst (reserve_stock s [(pid, qty)]) = Inr () \<longrightarrow>
         cur (snd (reserve_stock s [(pid, qty)])) =
           (cur s)\<lparr>products :=
              map (\<lambda>p. if p_id p = pid then p\<lparr>p_stock := p_stock p - qty\<rparr> else p)
                (products (cur s))\<rparr> \<and>
         stock_of (cur (snd (reserve_stock s [(pid, qty)]))) pid = stock_of (cur s) pid - qty \<and>
         0 \<le> stock_of (cur s) pid - qty) \<and>
      (fst (reserve_stock s [(pid, qty)]) \<noteq> Inr () \<longrightarrow>
         fst (reserve_stock s [(pid, qty)]) = Inl (HTTPException 400 (Insufficient_stock pid)) \<and>
         cur (snd (reserve_stock s [(pid, qty)])) = cur s)) \<and>
   calls (snd (reserve_stock s [(pid, qty)])) = calls s @ [Execute (UPDATE_stock pid qty)] \<and>
   reserve_stock s ((pid, qty) # its) =
     (case reserve_stock s [(pid, qty)] of
        (Inl e, s') \<Rightarrow> (Inl e, s')
      | (Inr u, s') \<Rightarrow> reserve_stock s' its) \<and>
   (stock_ok (cur s) \<longrightarrow> stock_ok (cur (snd (reserve_stock s its)))) \<and>
   (reachable d \<longrightarrow> distinct (map p_id (products d)) \<and> stock_ok d)"
proof -
  let ?ps = "products (cur s)"
  let ?r = "reserve_stock s [(pid, qty)]"
  let ?u = "update_stock ?ps pid qty"
  note one = reserve_one[of s pid qty]
  have res: "fst ?r = (if snd ?u = 1 then Inr () else Inl (HTTPException 400 (Insufficient_stock pid)))"
    and cur': "cur (snd ?r) = (cur s)\<lparr>products := fst ?u\<rparr>"
    and calls': "calls (snd ?r) = calls s @ [Execute (UPDATE_stock pid qty)]"
    by (simp_all only: one fst_conv snd_conv) simp_all
  have ok_iff: "fst ?r = Inr () \<longleftrightarrow> snd ?u = 1"
    by (simp only: res) simp
  have a: "fst ?r = Inr () \<longleftrightarrow> (\<exists>p\<in>set ?ps. p_id p = pid \<and> qty \<le> p_stock p)"
    if "distinct (map p_id ?ps)"
    using update_stock_rowcount[OF that, of pid qty] ok_iff by blast
  have b: "cur (snd ?r) =
           (cur s)\<lparr>products :=
              map (\<lambda>p. if p_id p = pid then p\<lparr>p_stock := p_stock p - qty\<rparr> else p) ?ps\<rparr> \<and>
         stock_of (cur (snd ?r)) pid = stock_of (cur s) pid - qty \<and>
         0 \<le> stock_of (cur s) pid - qty"
    if dist: "distinct (map p_id ?ps)" and ok: "fst ?r = Inr ()"
  proof -
    from ok ok_iff have c1: "snd ?u = 1" by blast
    with update_stock_rowcount[OF dist, of pid qty]
    have ex: "\<exists>p\<in>set ?ps. p_id p = pid \<and> qty \<le> p_stock p" by blast
    note tbl = update_stock_one[OF dist ex]
    from update_stock_row[OF dist c1] obtain p where
      r: "get_product_row ?ps pid = Some p" "qty \<le> p_stock p"
         "get_product_row (fst ?u) pid = Some (p\<lparr>p_stock := p_stock p - qty\<rparr>)" by blast
    have 1: "cur (snd ?r) =
           (cur s)\<lparr>products :=
              map (\<lambda>p. if p_id p = pid then p\<lparr>p_stock := p_stock p - qty\<rparr> else p) ?ps\<rparr>"
      by (simp only: cur' tbl)
    have 2: "stock_of (cur (snd ?r)) pid = stock_of (cur s) pid - qty"
      by (simp only: cur') (simp add: stock_of_def r)
    have 3: "0 \<le> stock_of (cur s) pid - qty"
      using r(2) by (simp add: stock_of_def r(1))
    from 1 2 3 show ?thesis by blast
  qed
  have c: "fst ?r = Inl (HTTPException 400 (Insufficient_stock pid)) \<and> cur (snd ?r) = cur s"
    if dist: "distinct (map p_id ?ps)" and ko: "fst ?r \<noteq> Inr ()"
  proof -
    from ko ok_iff have n: "snd ?u \<noteq> 1" by blast
    then have 1: "fst ?r = Inl (HTTPException 400 (Insufficient_stock pid))"
      by (simp only: res) simp
    have 2: "cur (snd ?r) = cur s"
      by (simp only: cur' update_stock_zero[OF dist n]) simp
    from 1 2 show ?thesis by blast
  qed
  have e: "distinct (map p_id (products d)) \<and> stock_ok d" if "reachable d"
    using reachable_ok[OF that] by (simp add: db_ok_def)
  from a b c calls' reserve_stock_Cons[of s pid qty its] reserve_stock_nonneg[of s its] e
  show ?thesis by blast
qed

theorem C3_reservation_guard_witness:
  "fst (reserve_stock \<lparr>cur = shop, calls = []\<rparr> [(1, 4)]) = Inr () \<and>
   map p_stock (products (cur (snd (reserve_stock \<lparr>cur = shop, calls = []\<rparr> [(1, 4)])))) = [6, 3] \<and>
   stock_of (cur (snd (reserve_stock \<lparr>cur = shop, calls = []\<rparr> [(1, 4)]))) 1 = 6 \<and>
   reserve_stock \<lparr>cur = shop, calls = []\<rparr> [(2, 4)] =
     (Inl (HTTPException 400 (Insufficient_stock 2)),
      \<lparr>cur = shop, calls = [Execute (UPDATE_stock 2 4)]\<rparr>) \<and>
   reachable shop \<and> stock_ok shop"
proof -
  let ?s = "\<lparr>cur = shop, calls = []\<rparr>"
  have h1: "distinct (map p_id (products (cur ?s)))" by (simp add: shop_facts)
  have h2: "\<exists>p\<in>set (products (cur ?s)). p_id p = 1 \<and> 4 \<le> p_stock p"
    by (simp add: shop_def pen_def ink_def)
  have h3: "\<not> (\<exists>p\<in>set (products (cur ?s)). p_id p = 2 \<and> 4 \<le> p_stock p)"
    by (simp add: shop_def pen_def ink_def)
  note t1 = C3_reservation_guard[of ?s 1 4 "[]" shop]
  note t2 = C3_reservation_guard[of ?s 2 4 "[]" shop]
  from t1 h1 h2 have 1: "fst (reserve_stock ?s [(1, 4)]) = Inr ()" by blast
  with t1 h1 have c1: "cur (snd (reserve_stock ?s [(1, 4)])) =
      (cur ?s)\<lparr>products :=
         map (\<lambda>p. if p_id p = 1 then p\<lparr>p_stock := p_stock p - 4\<rparr> else p) (products (cur ?s))\<rparr>"
    and s1: "stock_of (cur (snd (reserve_stock ?s [(1, 4)]))) 1 = stock_of (cur ?s) 1 - 4"
    by blast+
  have 2: "map p_stock (products (cur (snd (reserve_stock ?s [(1, 4)])))) = [6, 3]"
    by (simp only: c1) (simp add: shop_def pen_def ink_def)
  have 3: "stock_of (cur (snd (reserve_stock ?s [(1, 4)]))) 1 = 6"
    by (simp only: s1) (simp add: shop_facts)
  from t2 h1 h3 have n: "fst (reserve_stock ?s [(2, 4)]) \<noteq> Inr ()" by blast
  with t2 h1 have f: "fst (reserve_stock ?s [(2, 4)]) = Inl (HTTPException 400 (Insufficient_stock 2))"
    and c2: "cur (snd (reserve_stock ?s [(2, 4)])) = cur ?s" by blast+
  from t2 have l: "calls (snd (reserve_stock ?s [(2, 4)])) = calls ?s @ [Execute (UPDATE_stock 2 4)]"
    by blast
  have 4: "reserve_stock ?s [(2, 4)] =
     (Inl (HTTPException 400 (Insufficient_stock 2)),
      \<lparr>cur = shop, calls = [Execute (UPDATE_stock 2 4)]\<rparr>)"
    using f c2 l by (simp add: prod_eq_iff session.equality)
  from t1 reachable_shop have 5: "stock_ok shop" by blast
  from 1 2 3 4 5 reachable_shop show ?thesis by blast
qed

section \<open>Which product the insufficient stock error names\<close>

lemma snapshot_Inl:
  "snapshot prices oid its t pend = Inl e \<Longrightarrow> \<exists>k. e = KeyError k"
proof (induction its arbitrary: t pend)
  case Nil
  then show ?case by simp
next
  case (Cons x its)
  obtain pid qty where x: "x = (pid, qty)" by (cases x)
  show ?case
  proof (cases "map_of prices pid")
    case None
    with Cons.prems show ?thesis by (auto simp: x)
  next
    case (Some price)
    with Cons.prems show ?thesis
      by (intro Cons.IH[of "t + price * qty"
            "pend @ [\<lparr>oi_id = 0, oi_order_id = oid, oi_product_id = pid, oi_qty = qty,
                       oi_price_cents = price\<rparr>]"]) (simp add: x)
  qed
qed

lemma create_order_reserved:
  assumes "items payload \<noteq> []"
    and "fst (reserve_stock (snd (fetch_prices s (dict_keys (combine (items payload) []))))
               (combine (items payload) [])) = Inr u"
  shows "fst (create_order payload user now s) \<noteq> Inl (HTTPException 400 (Insufficient_stock pid))"
proof -
  let ?C = "combine (items payload) []"
  let ?fp = "fetch_prices s (dict_keys ?C)"
  obtain r2 s2 where rs: "reserve_stock (snd ?fp) ?C = (r2, s2)"
    by (cases "reserve_stock (snd ?fp) ?C")
  with assms(2) have r2: "r2 = Inr u" by simp
  let ?oid = "orders_seq (cur s2) + 1"
  show ?thesis
  proof (cases "length (fst ?fp) \<noteq> length (dict_keys ?C)")
    case True
    with assms(1) show ?thesis by (simp add: create_order_def Let_def case_prod_beta)
  next
    case False
    show ?thesis
    proof (cases "snapshot (fst ?fp) ?oid ?C 0 []")
      case (Inl e)
      with snapshot_Inl[OF Inl] assms(1) False rs r2 show ?thesis
        by (auto simp: create_order_def Let_def case_prod_beta insert_order_def
              split: if_splits)
    next
      case (Inr tp)
      with assms(1) False rs r2 show ?thesis
        by (auto simp: create_order_def Let_def case_prod_beta insert_order_def set_total_def
              split: option.splits sum.splits if_splits dest: insert_items_Inl)
    qed
  qed
qed

lemma post_orders_sufficient:
  assumes pk: "distinct (map p_id (products d))"
    and known: "\<forall>it\<in>set (items payload). known d (in_product_id it)"
    and none: "find (\<lambda>pid. stock_of d pid < requested (items payload) pid)
                (first_seen (map in_product_id (items payload))) = None"
  shows "fst (post_orders payload user now d) \<noteq> Inl (HTTPException 400 (Insufficient_stock pid))"
proof (cases "items payload = []")
  case True
  then show ?thesis by (simp add: post_orders_empty)
next
  case ne: False
  let ?s0 = "execute \<lparr>cur = d, calls = []\<rparr> CREATE_SCHEMA"
  let ?C = "combine (items payload) []"
  let ?s1 = "snd (fetch_prices ?s0 (dict_keys ?C))"
  have cur1: "cur ?s1 = d" by (simp add: fetch_prices_cur execute_def)
  have dist: "distinct (map fst ?C)"
    using distinct_combine[of "[]" "items payload"] by (simp add: dict_keys_def)
  have pk1: "distinct (map p_id (products (cur ?s1)))" using pk by (simp only: cur1)
  have suff: "\<forall>(pid, qty)\<in>set ?C. \<exists>p\<in>set (products (cur ?s1)). p_id p = pid \<and> qty \<le> p_stock p"
  proof (clarify)
    fix pid qty assume "(pid, qty) \<in> set ?C"
    then have m: "pid \<in> set (map in_product_id (items payload))" and q: "qty = requested (items payload) pid"
      by (simp_all only: combine_entry)
    from m known have k: "known d pid" by auto
    from m none have "\<not> stock_of d pid < requested (items payload) pid"
      by (auto simp: find_None_iff set_first_seen)
    with stock_of_row[OF pk k, of qty] q
    show "\<exists>p\<in>set (products (cur ?s1)). p_id p = pid \<and> qty \<le> p_stock p"
      by (simp only: cur1) auto
  qed
  from reserve_stock_ok[OF pk1 dist suff] have "fst (reserve_stock ?s1 ?C) = Inr ()" by simp
  from create_order_reserved[OF ne this, of user now pid] obtain r s' where
    "create_order payload user now ?s0 = (r, s')" "r \<noteq> Inl (HTTPException 400 (Insufficient_stock pid))"
    by (cases "create_order payload user now ?s0") auto
  then show ?thesis
    by (cases r) (auto simp: post_orders_def get_session_def)
qed

lemma insufficient_iff:
  assumes pk: "distinct (map p_id (products d))"
  shows "fst (post_orders payload user now d) = Inl (HTTPException 400 (Insufficient_stock pid)) \<longleftrightarrow>
     (\<forall>it\<in>set (items payload). known d (in_product_id it)) \<and>
     find (\<lambda>pid. stock_of d pid < requested (items payload) pid)
       (first_seen (map in_product_id (items payload))) = Some pid"
proof
  assume e: "fst (post_orders payload user now d) = Inl (HTTPException 400 (Insufficient_stock pid))"
  have known: "\<forall>it\<in>set (items payload). known d (in_product_id it)"
  proof (rule ccontr)
    assume "\<not> (\<forall>it\<in>set (items payload). known d (in_product_id it))"
    then have "\<not> set (map in_product_id (items payload)) \<subseteq> set (map p_id (products d))"
      by (auto simp: known_def)
    from post_orders_unknown[OF this, of user now] e show False by simp
  qed
  show "(\<forall>it\<in>set (items payload). known d (in_product_id it)) \<and>
     find (\<lambda>pid. stock_of d pid < requested (items payload) pid)
       (first_seen (map in_product_id (items payload))) = Some pid"
  proof (cases "find (\<lambda>pid. stock_of d pid < requested (items payload) pid)
       (first_seen (map in_product_id (items payload)))")
    case None
    from post_orders_sufficient[OF pk known None, of user now pid] e show ?thesis by simp
  next
    case (Some pid')
    from post_orders_insufficient[OF pk known Some, of user now] e have "pid' = pid" by simp
    with Some known show ?thesis by simp
  qed
next
  assume "(\<forall>it\<in>set (items payload). known d (in_product_id it)) \<and>
     find (\<lambda>pid. stock_of d pid < requested (items payload) pid)
       (first_seen (map in_product_id (items payload))) = Some pid"
  then show "fst (post_orders payload user now d) = Inl (HTTPException 400 (Insufficient_stock pid))"
    using post_orders_insufficient[OF pk, of payload pid user now] by blast
qed

text \<open>
  C10: the \<open>insufficient stock\<close> error names a product exactly when every requested
  product exists and that product is the first, in the order of first occurrence in the
  submitted list, whose merged quantity exceeds its stock, however many products after it
  are short as well. The session has then sent one conditional update for each product
  before it and one for the product it names, then nothing but the rollback, and the
  database is left as it was.
\<close>

theorem C10_first_insufficient_named:
  assumes "distinct (map p_id (products d))"
  shows "(fst (post_orders payload user now d) = Inl (HTTPException 400 (Insufficient_stock pid)) \<longleftrightarrow>
            (\<forall>it\<in>set (items payload). known d (in_product_id it)) \<and>
            find (\<lambda>pid. stock_of d pid < requested (items payload) pid)
              (first_seen (map in_product_id (items payload))) = Some pid) \<and>
         (fst (post_orders payload user now d) = Inl (HTTPException 400 (Insufficient_stock pid)) \<longrightarrow>
            post_orders payload user now d =
              (Inl (HTTPException 400 (Insufficient_stock pid)), d,
               [Execute CREATE_SCHEMA,
                Execute (SELECT_prices (first_seen (map in_product_id (items payload))))] @
               map (\<lambda>p. Execute (UPDATE_stock p (requested (items payload) p)))
                 (takeWhile (\<lambda>p. \<not> stock_of d p < requested (items payload) p)
                    (first_seen (map in_product_id (items payload))) @ [pid]) @
               [Rollback]))"
proof (intro conjI impI)
  show "fst (post_orders payload user now d) = Inl (HTTPException 400 (Insufficient_stock pid)) \<longleftrightarrow>
            (\<forall>it\<in>set (items payload). known d (in_product_id it)) \<and>
            find (\<lambda>pid. stock_of d pid < requested (items payload) pid)
              (first_seen (map in_product_id (items payload))) = Some pid"
    using assms by (rule insufficient_iff)
next
  assume e: "fst (post_orders payload user now d) = Inl (HTTPException 400 (Insufficient_stock pid))"
  with insufficient_iff[OF assms, of payload user now pid]
  have k: "\<forall>it\<in>set (items payload). known d (in_product_id it)"
    and f: "find (\<lambda>pid. stock_of d pid < requested (items payload) pid)
              (first_seen (map in_product_id (items payload))) = Some pid"
    by simp_all
  from post_orders_insufficient[OF assms k f, of user now]
    post_orders_insufficient_calls[OF assms k f, of user now]
  show "post_orders payload user now d =
              (Inl (HTTPException 400 (Insufficient_stock pid)), d,
               [Execute CREATE_SCHEMA,
                Execute (SELECT_prices (first_seen (map in_product_id (items payload))))] @
               map (\<lambda>p. Execute (UPDATE_stock p (requested (items payload) p)))
                 (takeWhile (\<lambda>p. \<not> stock_of d p < requested (items payload) p)
                    (first_seen (map in_product_id (items payload))) @ [pid]) @
               [Rollback])"
    by (simp add: prod_eq_iff)
qed

theorem C10_first_insufficient_named_witness:
  "post_orders \<lparr>items = [line 2 4, line 1 11, line 2 1]\<rparr> ''ann'' 0 shop =
     (Inl (HTTPException 400 (Insufficient_stock 2)), shop,
      [Execute CREATE_SCHEMA, Execute (SELECT_prices [2, 1]), Execute (UPDATE_stock 2 5), Rollback]) \<and>
   stock_of shop 1 < requested [line 2 4, line 1 11, line 2 1] 1 \<and>
   stock_of shop 2 < requested [line 2 4, line 1 11, line 2 1] 2"
proof -
  let ?p = "\<lparr>items = [line 2 4, line 1 11, line 2 1]\<rparr>"
  have h1: "distinct (map p_id (products shop))" by (rule shop_facts)
  have h2: "\<forall>it\<in>set (items ?p). known shop (in_product_id it)"
    by (simp add: line_sel shop_facts)
  have ids: "first_seen (map in_product_id (items ?p)) = [2, 1]" by (simp add: line_sel)
  have r: "requested [line 2 4, line 1 11, line 2 1] 2 = 5"
    "requested [line 2 4, line 1 11, line 2 1] 1 = 11"
    by (simp_all add: requested_def line_sel)
  have h3: "find (\<lambda>pid. stock_of shop pid < requested (items ?p) pid)
      (first_seen (map in_product_id (items ?p))) = Some 2"
    by (simp only: ids) (simp add: r shop_facts)
  note th = C10_first_insufficient_named[OF h1, of ?p "''ann''" 0 2]
  from th h2 h3 have "fst (post_orders ?p ''ann'' 0 shop) = Inl (HTTPException 400 (Insufficient_stock 2))"
    by blast
  with th have "post_orders ?p ''ann'' 0 shop =
              (Inl (HTTPException 400 (Insufficient_stock 2)), shop,
               [Execute CREATE_SCHEMA,
                Execute (SELECT_prices (first_seen (map in_product_id (items ?p))))] @
               map (\<lambda>p. Execute (UPDATE_stock p (requested (items ?p) p)))
                 (takeWhile (\<lambda>p. \<not> stock_of shop p < requested (items ?p) p)
                    (first_seen (map in_product_id (items ?p))) @ [2]) @
               [Rollback])"
    by blast
  then show ?thesis
    by (simp only: ids) (simp add: r shop_facts)
qed

end
